theory Spec2Isabelle
  imports Main "HOL-Library.Monad_Syntax"
begin

section \<open>The networked five-in-a-row game of main.go\<close>

text \<open>
  The program keeps one \<open>GameState\<close> that only the main loop's two handlers,
  \<open>handleUserInput\<close> and \<open>handleNetworkMessage\<close>, read and write. Go's \<open>int\<close>
  is modelled by \<open>int\<close>; the one subtraction of the program that can leave the 64-bit
  range is written with its wrap-around (\<open>sub64\<close>). A slice is a list. A call that does
  not return has the value \<open>None\<close>: an index out of range (a panic in Go), the unlocking
  of a mutex that is not locked (a fatal error of the Go runtime), and the locking of a
  mutex that its only user already holds (which blocks for ever).
\<close>

subsection \<open>Constants\<close>

definition BoardSize :: int where "BoardSize = 15"
definition Empty :: int where "Empty = 0"
definition Player1 :: int where "Player1 = 1"
definition Player2 :: int where "Player2 = 2"

definition MsgTypeMove :: string where "MsgTypeMove = ''move''"
definition MsgTypeChat :: string where "MsgTypeChat = ''chat''"
definition MsgTypeState :: string where "MsgTypeState = ''state''"
definition MsgTypeAssign :: string where "MsgTypeAssign = ''assign''"
definition MsgTypeError :: string where "MsgTypeError = ''error''"
definition MsgTypeNotify :: string where "MsgTypeNotify = ''notify''"

subsection \<open>Boards\<close>

text \<open>\<open>xs[i]\<close> of Go: the element, or a panic when \<open>i\<close> is out of range.\<close>

definition index :: "'a list \<Rightarrow> int \<Rightarrow> 'a option" where
  "index xs i = (if 0 \<le> i \<and> i < int (length xs) then Some (xs ! nat i) else None)"

text \<open>\<open>board[i][j]\<close>: the row is read first, then the cell.\<close>

definition cellAt :: "int list list \<Rightarrow> int \<Rightarrow> int \<Rightarrow> int option" where
  "cellAt board i j = (case index board i of None \<Rightarrow> None | Some row \<Rightarrow> index row j)"

text \<open>
  \<open>NewBoard\<close> makes \<open>size\<close> rows of \<open>size\<close> zeroes. (Go's \<open>make\<close> panics on a negative
  size; the program's only call passes \<open>BoardSize\<close>.)
\<close>

definition NewBoard :: "int \<Rightarrow> int list list" where
  "NewBoard sz = replicate (nat sz) (replicate (nat sz) 0)"

text \<open>
  A chain \<open>board[a][b] == player && board[c][d] == player && ...\<close>, evaluated from the
  left and stopping at the first cell that differs.
\<close>

fun cellsEq :: "int list list \<Rightarrow> int \<Rightarrow> (int \<times> int) list \<Rightarrow> bool option" where
  "cellsEq board player [] = Some True"
| "cellsEq board player ((i, j) # cs) =
     (case cellAt board i j of
        None \<Rightarrow> None
      | Some v \<Rightarrow> if v = player then cellsEq board player cs else Some False)"

text \<open>
  A sequence of statements \<open>if c { return true }\<close>: the first condition that holds
  returns, a panic in a condition ends the call.
\<close>

fun orElse :: "bool option \<Rightarrow> bool option \<Rightarrow> bool option" where
  "orElse None r = None"
| "orElse (Some True) r = Some True"
| "orElse (Some False) r = r"

text \<open>
  The body of the inner loop of \<open>checkWinLogic\<close> at cell \<open>(i, j)\<close>: \<open>Some True\<close> when it
  executes \<open>return true\<close>, \<open>Some False\<close> when the loop goes on.
\<close>

definition probe :: "int list list \<Rightarrow> int \<Rightarrow> int \<Rightarrow> int \<Rightarrow> bool option" where
  "probe board player i j =
     (let sz = int (length board) in
      case cellAt board i j of
        None \<Rightarrow> None
      | Some v \<Rightarrow>
          if v = player then
            orElse (if j + 4 < sz
                    then cellsEq board player [(i, j + 1), (i, j + 2), (i, j + 3), (i, j + 4)]
                    else Some False)
           (orElse (if i + 4 < sz
                    then cellsEq board player [(i + 1, j), (i + 2, j), (i + 3, j), (i + 4, j)]
                    else Some False)
           (orElse (if i + 4 < sz \<and> j + 4 < sz
                    then cellsEq board player
                           [(i + 1, j + 1), (i + 2, j + 2), (i + 3, j + 3), (i + 4, j + 4)]
                    else Some False)
                   (if i + 4 < sz \<and> j - 4 \<ge> 0
                    then cellsEq board player
                           [(i + 1, j - 1), (i + 2, j - 2), (i + 3, j - 3), (i + 4, j - 4)]
                    else Some False)))
          else Some False)"

text \<open>\<open>for j := ...; j < size; j++\<close>, from the current \<open>j\<close> on.\<close>

function colLoop :: "int list list \<Rightarrow> int \<Rightarrow> int \<Rightarrow> int \<Rightarrow> bool option" where
  "colLoop board player i j =
     (if j < int (length board)
      then (case probe board player i j of
              None \<Rightarrow> None
            | Some hit \<Rightarrow> if hit then Some True else colLoop board player i (j + 1))
      else Some False)"
  by pat_completeness auto
termination
  by (relation "measure (\<lambda>(board, player, i, j). nat (int (length board) - j))") auto

text \<open>\<open>for i := ...; i < size; i++\<close>, from the current \<open>i\<close> on.\<close>

function rowLoop :: "int list list \<Rightarrow> int \<Rightarrow> int \<Rightarrow> bool option" where
  "rowLoop board player i =
     (if i < int (length board)
      then (case colLoop board player i 0 of
              None \<Rightarrow> None
            | Some hit \<Rightarrow> if hit then Some True else rowLoop board player (i + 1))
      else Some False)"
  by pat_completeness auto
termination
  by (relation "measure (\<lambda>(board, player, i). nat (int (length board) - i))") auto

definition checkWinLogic :: "int list list \<Rightarrow> int \<Rightarrow> bool option" where
  "checkWinLogic board player = rowLoop board player 0"

text \<open>\<open>checkDrawLogic\<close>: \<open>false\<close> at the first \<open>Empty\<close> cell, row by row.\<close>

fun rowFull :: "int list \<Rightarrow> bool" where
  "rowFull [] = True"
| "rowFull (c # cs) = (if c = Empty then False else rowFull cs)"

fun checkDrawLogic :: "int list list \<Rightarrow> bool" where
  "checkDrawLogic [] = True"
| "checkDrawLogic (r # rs) = (if rowFull r then checkDrawLogic rs else False)"

text \<open>\<open>board[x][y] = v\<close>, for a cell that \<open>cellAt\<close> has found in range.\<close>

definition setCell :: "int list list \<Rightarrow> int \<Rightarrow> int \<Rightarrow> int \<Rightarrow> int list list" where
  "setCell board x y v = board[nat x := (board ! nat x)[nat y := v]]"

subsection \<open>Messages and the game state\<close>

record Message =
  Type :: string
  Player :: int
  X :: int
  Y :: int
  Content :: string
  Turn :: int
  Winner :: int

text \<open>
  The fields of \<open>GameState\<close> that the handlers use. Of the mutex \<open>mu\<close> the state keeps
  whether it is locked: only the main goroutine locks it, in the handlers, in the
  display and in the setup. The locks of the chat log and of the redraw flag are taken
  and released inside one function each and are left out, as are the connection and the
  channels; of \<open>quitChan\<close> the state keeps whether it has been closed, and \<open>sent\<close> lists
  the messages handed to \<open>SendMessage\<close>, in the order of the calls (the write to the
  connection is taken to succeed; what the peer does with a message is not part of the
  model).
\<close>

record GameState =
  board :: "int list list"
  currentPlayer :: int
  winner :: int
  gameOver :: bool
  mu :: bool
  playerID :: int
  chatHistory :: "string list"
  needsRedraw :: bool
  quitClosed :: bool
  sent :: "Message list"

text \<open>\<open>gs.mu.Lock()\<close> and \<open>gs.mu.Unlock()\<close>.\<close>

definition Lock :: "GameState \<Rightarrow> GameState option" where
  "Lock gs = (if mu gs then None else Some (gs\<lparr>mu := True\<rparr>))"

definition Unlock :: "GameState \<Rightarrow> GameState option" where
  "Unlock gs = (if mu gs then Some (gs\<lparr>mu := False\<rparr>) else None)"

definition SetNeedsRedraw :: "GameState \<Rightarrow> GameState" where
  "SetNeedsRedraw gs = gs\<lparr>needsRedraw := True\<rparr>"

definition SendMessage :: "Message \<Rightarrow> GameState \<Rightarrow> GameState" where
  "SendMessage msg gs = gs\<lparr>sent := sent gs @ [msg]\<rparr>"

text \<open>The select on \<open>quitChan\<close> that closes it unless it is closed already.\<close>

definition closeQuit :: "GameState \<Rightarrow> GameState" where
  "closeQuit gs = (if quitClosed gs then gs else gs\<lparr>quitClosed := True\<rparr>)"

text \<open>A message literal of Go: the fields it does not name are zero.\<close>

definition zeroMessage :: Message where
  "zeroMessage = \<lparr>Type = [], Player = 0, X = 0, Y = 0, Content = [], Turn = 0, Winner = 0\<rparr>"

subsection \<open>Library functions of Go that the handlers call\<close>

text \<open>The verb \<open>%d\<close> of \<open>fmt.Sprintf\<close>.\<close>

fun showNat :: "nat \<Rightarrow> string" where
  "showNat n =
     (if n < 10 then [char_of (48 + n)] else showNat (n div 10) @ [char_of (48 + n mod 10)])"

definition showInt :: "int \<Rightarrow> string" where
  "showInt i = (if i < 0 then CHR ''-'' # showNat (nat (- i)) else showNat (nat i))"

definition HasPrefix :: "string \<Rightarrow> string \<Rightarrow> bool" where
  "HasPrefix s pre = (length pre \<le> length s \<and> take (length pre) s = pre)"

definition TrimPrefix :: "string \<Rightarrow> string \<Rightarrow> string" where
  "TrimPrefix s pre = (if HasPrefix s pre then drop (length pre) s else s)"

text \<open>\<open>strings.Split\<close> for a separator of one byte: one more part than separators.\<close>

fun Split :: "string \<Rightarrow> char \<Rightarrow> string list" where
  "Split [] sep = [[]]"
| "Split (c # cs) sep =
     (if c = sep then [] # Split cs sep
      else (case Split cs sep of [] \<Rightarrow> [[c]] | p # ps \<Rightarrow> (c # p) # ps))"

text \<open>
  \<open>strings.TrimSpace\<close> removes the white space of Unicode at both ends. The strings are
  byte strings, so each white-space character is listed by its UTF-8 encoding.
\<close>

definition spaceSeqs :: "string list" where
  "spaceSeqs =
     [[CHR 0x09], [CHR 0x0A], [CHR 0x0B], [CHR 0x0C], [CHR 0x0D], [CHR 0x20],
      [CHR 0xC2, CHR 0x85], [CHR 0xC2, CHR 0xA0], [CHR 0xE1, CHR 0x9A, CHR 0x80],
      [CHR 0xE2, CHR 0x80, CHR 0x80], [CHR 0xE2, CHR 0x80, CHR 0x81],
      [CHR 0xE2, CHR 0x80, CHR 0x82], [CHR 0xE2, CHR 0x80, CHR 0x83],
      [CHR 0xE2, CHR 0x80, CHR 0x84], [CHR 0xE2, CHR 0x80, CHR 0x85],
      [CHR 0xE2, CHR 0x80, CHR 0x86], [CHR 0xE2, CHR 0x80, CHR 0x87],
      [CHR 0xE2, CHR 0x80, CHR 0x88], [CHR 0xE2, CHR 0x80, CHR 0x89],
      [CHR 0xE2, CHR 0x80, CHR 0x8A], [CHR 0xE2, CHR 0x80, CHR 0xA8],
      [CHR 0xE2, CHR 0x80, CHR 0xA9], [CHR 0xE2, CHR 0x80, CHR 0xAF],
      [CHR 0xE2, CHR 0x81, CHR 0x9F], [CHR 0xE3, CHR 0x80, CHR 0x80]]"

function trimWith :: "string list \<Rightarrow> string \<Rightarrow> string" where
  "trimWith seqs s =
     (case find (\<lambda>w. w \<noteq> [] \<and> HasPrefix s w) seqs of
        None \<Rightarrow> s
      | Some w \<Rightarrow> trimWith seqs (drop (length w) s))"
  by pat_completeness auto
termination
proof (relation "measure (\<lambda>(seqs, s). length s)")
  show "wf (measure (\<lambda>(seqs, s). length s))"
    by simp
next
  fix seqs :: "string list" and s w :: string
  assume "find (\<lambda>w. w \<noteq> [] \<and> HasPrefix s w) seqs = Some w"
  then have "w \<noteq> [] \<and> HasPrefix s w"
    by (auto simp: find_Some_iff)
  then show "((seqs, drop (length w) s), (seqs, s)) \<in> measure (\<lambda>(seqs, s). length s)"
    by (cases w) (auto simp: HasPrefix_def)
qed

definition TrimSpace :: "string \<Rightarrow> string" where
  "TrimSpace s = rev (trimWith (map rev spaceSeqs) (rev (trimWith spaceSeqs s)))"

text \<open>
  \<open>strconv.Atoi\<close> on a 64-bit platform: an optional sign, then decimal digits only, and
  an error (here \<open>None\<close>) when there is no digit, another byte, or the value does not
  fit 64 bits.
\<close>

definition isDigit :: "char \<Rightarrow> bool" where
  "isDigit c = (48 \<le> (of_char c :: nat) \<and> (of_char c :: nat) \<le> 57)"

definition digitVal :: "char \<Rightarrow> int" where
  "digitVal c = int (of_char c) - 48"

definition Atoi :: "string \<Rightarrow> int option" where
  "Atoi s =
     (let neg = (s \<noteq> [] \<and> hd s = CHR ''-'');
          ds = (if s \<noteq> [] \<and> (hd s = CHR ''-'' \<or> hd s = CHR ''+'') then tl s else s)
      in if ds = [] \<or> \<not> list_all isDigit ds then None
         else (let n = foldl (\<lambda>a c. 10 * a + digitVal c) 0 ds;
                   v = (if neg then - n else n)
               in if - (2 ^ 63) \<le> v \<and> v < 2 ^ 63 then Some v else None))"

text \<open>Go's \<open>a - b\<close> on \<open>int\<close>: the difference, wrapped to 64 bits.\<close>

definition sub64 :: "int \<Rightarrow> int \<Rightarrow> int" where
  "sub64 a b = (a - b + 2 ^ 63) mod 2 ^ 64 - 2 ^ 63"

subsection \<open>Operations on the state\<close>

text \<open>
  \<open>placePieceInternal\<close> returns whether the piece was placed, with the state after the
  call. The coordinates are compared with \<open>BoardSize\<close>, then \<open>board[x][y]\<close> is read.
\<close>

definition placePieceInternal ::
    "int \<Rightarrow> int \<Rightarrow> int \<Rightarrow> GameState \<Rightarrow> (bool \<times> GameState) option" where
  "placePieceInternal x y player gs =
     (if x < 0 \<or> x \<ge> BoardSize \<or> y < 0 \<or> y \<ge> BoardSize then Some (False, gs)
      else (case cellAt (board gs) x y of
              None \<Rightarrow> None
            | Some v \<Rightarrow>
                if v \<noteq> Empty then Some (False, gs)
                else Some (True, gs\<lparr>board := setCell (board gs) x y player\<rparr>)))"

definition AddChatMessage :: "string \<Rightarrow> string \<Rightarrow> GameState \<Rightarrow> GameState" where
  "AddChatMessage sender message gs =
     (let h = chatHistory gs @ [''['' @ sender @ '']: '' @ message];
          maxChatHistory = 20
      in gs\<lparr>chatHistory :=
               (if length h > maxChatHistory then drop (length h - maxChatHistory) h else h)\<rparr>)"

subsection \<open>handleNetworkMessage\<close>

text \<open>
  The \<open>switch\<close> on the message type, taken with the mutex held while the game is not
  over. The result pairs \<open>opponentMoved || chatReceived || stateChanged\<close>, the only use
  the handler makes of its three flags, with the state.
\<close>

definition dispatch :: "Message \<Rightarrow> string \<Rightarrow> GameState \<Rightarrow> (bool \<times> GameState) option" where
  "dispatch msg senderName gs =
     (if Type msg = MsgTypeMove then
        (if Player msg \<noteq> playerID gs \<and> currentPlayer gs = Player msg then
           do {
             (valid, gs1) \<leftarrow> placePieceInternal (X msg) (Y msg) (Player msg) gs;
             if valid then
               do {
                 win \<leftarrow> checkWinLogic (board gs1) (Player msg);
                 if win then Some (True, gs1\<lparr>winner := Player msg, gameOver := True\<rparr>)
                 else if checkDrawLogic (board gs1)
                   then Some (True, gs1\<lparr>winner := 3, gameOver := True\<rparr>)
                 else Some (True, gs1\<lparr>currentPlayer := playerID gs1\<rparr>)
               }
             else
               do {
                 gs2 \<leftarrow> Unlock gs1;
                 gs3 \<leftarrow> Lock (SendMessage (zeroMessage\<lparr>Type := MsgTypeError,
                                Content := ''Received invalid move''\<rparr>) gs2);
                 Some (False, gs3)
               }
           }
         else if Player msg = playerID gs then Some (False, gs)
         else Some (False, gs))
      else if Type msg = MsgTypeChat then
        (if Player msg \<noteq> playerID gs then
           do {
             gs1 \<leftarrow> Unlock gs;
             gs2 \<leftarrow> Lock (AddChatMessage senderName (Content msg) gs1);
             Some (True, gs2)
           }
         else Some (False, gs))
      else if Type msg = MsgTypeState then
        Some (True, gs\<lparr>currentPlayer := Turn msg, winner := Winner msg,
                        gameOver := (Winner msg \<noteq> 0)\<rparr>)
      else if Type msg = MsgTypeAssign then
        (if playerID gs = 0 then
           (let gs1 = gs\<lparr>playerID := Player msg\<rparr>
            in Some (True,
                 if playerID gs1 = Player1 then gs1\<lparr>currentPlayer := Player1\<rparr>
                 else gs1\<lparr>currentPlayer := Player1\<rparr>))
         else Some (False, gs))
      else if Type msg = MsgTypeError then Some (True, gs)
      else if Type msg = MsgTypeNotify then Some (True, gs)
      else Some (False, gs))"

text \<open>
  The handler locks the mutex, and unlocks it after the \<open>if\<close> on \<open>gameOver\<close>. The branch
  for a game that is over has unlocked it already, so there the second \<open>Unlock\<close> finds
  the mutex unlocked.
\<close>

definition handleNetworkMessage :: "Message \<Rightarrow> GameState \<Rightarrow> GameState option" where
  "handleNetworkMessage msg gs0 =
     (let senderName = ''Player '' @ showInt (Player msg) in
      do {
        gs \<leftarrow> Lock gs0;
        (redraw, gs1) \<leftarrow>
          (if gameOver gs then
             do {
               gs' \<leftarrow> Unlock gs;
               if Type msg = MsgTypeChat
               then Some (True, AddChatMessage senderName (Content msg) gs')
               else Some (False, gs')
             }
           else dispatch msg senderName gs);
        gs2 \<leftarrow> Unlock gs1;
        let gs3 = (if redraw then SetNeedsRedraw gs2 else gs2);
        Some (if gameOver gs3 then closeQuit gs3 else gs3)
      })"

subsection \<open>handleUserInput\<close>

text \<open>
  The reading of a move, \<open>x,y\<close>: two parts around one comma, each a number once the
  white space around it is removed.
\<close>

datatype parsed = WrongParts | NotNumbers | Coords int int

definition parseMove :: "string \<Rightarrow> parsed" where
  "parseMove input =
     (let parts = Split input CHR '',''
      in if length parts = 2 then
           (case (Atoi (TrimSpace (parts ! 0)), Atoi (TrimSpace (parts ! 1))) of
              (Some x, Some y) \<Rightarrow> Coords x y
            | _ \<Rightarrow> NotNumbers)
         else WrongParts)"

text \<open>
  The critical section of the move branch and what follows it. \<open>validMove\<close>, \<open>win\<close> and
  \<open>draw\<close> are \<open>false\<close> unless the section sets them. After it the final state is sent
  when the game has ended, and the move itself is sent last.
\<close>

definition localMove :: "int \<Rightarrow> int \<Rightarrow> int \<Rightarrow> GameState \<Rightarrow> GameState option" where
  "localMove x y myPlayerID gs0 =
     do {
       gs \<leftarrow> Lock gs0;
       (validMove, win, draw, gs1) \<leftarrow>
         (if currentPlayer gs = myPlayerID \<and> \<not> gameOver gs then
            do {
              (validMove, gs1) \<leftarrow> placePieceInternal x y myPlayerID gs;
              if validMove then
                do {
                  win \<leftarrow> checkWinLogic (board gs1) myPlayerID;
                  let draw = checkDrawLogic (board gs1);
                  Some (True, win, draw,
                    if win then gs1\<lparr>winner := myPlayerID, gameOver := True\<rparr>
                    else if draw then gs1\<lparr>winner := 3, gameOver := True\<rparr>
                    else gs1\<lparr>currentPlayer := sub64 3 myPlayerID\<rparr>)
                }
              else Some (False, False, False, gs1)
            }
          else Some (False, False, False, gs));
       gs2 \<leftarrow> Unlock gs1;
       if validMove then
         (let gs3 = SetNeedsRedraw gs2;
              gs4 = (if win \<or> draw
                     then closeQuit
                            (SendMessage (zeroMessage\<lparr>Type := MsgTypeState,
                                            Winner := winner gs3, Turn := 0\<rparr>) gs3)
                     else gs3)
          in Some (SendMessage (zeroMessage\<lparr>Type := MsgTypeMove, Player := myPlayerID,
                                  X := x, Y := y\<rparr>) gs4))
       else Some (SetNeedsRedraw gs2)
     }"

definition handleUserInput :: "string \<Rightarrow> GameState \<Rightarrow> GameState option" where
  "handleUserInput input gs0 =
     do {
       gs1 \<leftarrow> Lock gs0;
       let myPlayerID = playerID gs1;
       let myTurn = (myPlayerID \<noteq> 0 \<and> currentPlayer gs1 = myPlayerID \<and> \<not> gameOver gs1);
       let isGameOver = gameOver gs1;
       gs \<leftarrow> Unlock gs1;
       if myPlayerID = 0 then Some (SetNeedsRedraw gs)
       else if isGameOver then Some (SetNeedsRedraw gs)
       else if \<not> myTurn then Some (SetNeedsRedraw gs)
       else if HasPrefix input ''/c '' then
         (let chatMsg = TrimPrefix input ''/c ''
          in if chatMsg \<noteq> [] then
               Some (SetNeedsRedraw
                      (AddChatMessage (''You (Player '' @ showInt myPlayerID @ '')'') chatMsg
                        (SendMessage (zeroMessage\<lparr>Type := MsgTypeChat, Player := myPlayerID,
                                        Content := chatMsg\<rparr>) gs)))
             else Some gs)
       else (case parseMove input of
               Coords x y \<Rightarrow> localMove x y myPlayerID gs
             | NotNumbers \<Rightarrow> Some (SetNeedsRedraw gs)
             | WrongParts \<Rightarrow> Some (SetNeedsRedraw gs))
     }"

subsection \<open>The main loop\<close>

text \<open>
  The state that \<open>main\<close> builds, and the server's setup before the loop (which locks
  the mutex, sets the two fields and unlocks it). The client starts the loop in
  \<open>initialState\<close>, the server in \<open>serverStart initialState\<close>.
\<close>

definition initialState :: GameState where
  "initialState =
     \<lparr>board = NewBoard BoardSize, currentPlayer = 0, winner = 0, gameOver = False,
      mu = False, playerID = 0, chatHistory = [], needsRedraw = True, quitClosed = False,
      sent = []\<rparr>"

definition serverStart :: "GameState \<Rightarrow> GameState" where
  "serverStart gs =
     SetNeedsRedraw
       (SendMessage (zeroMessage\<lparr>Type := MsgTypeAssign, Player := Player2\<rparr>)
         (gs\<lparr>playerID := Player1, currentPlayer := Player1\<rparr>))"

text \<open>
  One event of the loop's \<open>select\<close>: a line from the input, or a message. The loop holds
  no lock between two events.
\<close>

datatype event = Input string | Net Message

fun step :: "event \<Rightarrow> GameState \<Rightarrow> GameState option" where
  "step (Input input) gs =
     (if input \<noteq> [] then handleUserInput input gs else Some (SetNeedsRedraw gs))"
| "step (Net msg) gs = handleNetworkMessage msg gs"

fun run :: "event list \<Rightarrow> GameState \<Rightarrow> GameState option" where
  "run [] gs = Some gs"
| "run (e # es) gs = (case step e gs of None \<Rightarrow> None | Some gs1 \<Rightarrow> run es gs1)"

subsection \<open>What the specification calls a win, and well-formed boards\<close>

text \<open>
  A board as the program keeps it: \<open>BoardSize\<close> rows of \<open>BoardSize\<close> cells.
\<close>

definition wf_board :: "int list list \<Rightarrow> bool" where
  "wf_board b = (int (length b) = BoardSize \<and> (\<forall>row\<in>set b. int (length row) = BoardSize))"

text \<open>
  The specification's five-in-a-row, in its own words: five cells of the board that
  follow one another along a row, a column or one of the two diagonals, all equal to
  the player. \<open>line5 i j (di, dj)\<close> lists five consecutive positions from \<open>(i, j)\<close> on.
\<close>

definition directions :: "(int \<times> int) list" where
  "directions = [(0, 1), (1, 0), (1, 1), (1, - 1)]"

definition line5 :: "int \<Rightarrow> int \<Rightarrow> int \<times> int \<Rightarrow> (int \<times> int) list" where
  "line5 i j d = map (\<lambda>k. (i + k * fst d, j + k * snd d)) [0, 1, 2, 3, 4]"

definition hasFiveInRow :: "int list list \<Rightarrow> int \<Rightarrow> bool" where
  "hasFiveInRow b p =
     (\<exists>i\<in>{0..<int (length b)}. \<exists>j\<in>{0..<int (length b)}. \<exists>d\<in>set directions.
        \<forall>(r, c)\<in>set (line5 i j d). cellAt b r c = Some p)"

subsection \<open>Auxiliary notions for the proofs\<close>

text \<open>A board whose rows are as long as the board has rows.\<close>

definition square :: "int list list \<Rightarrow> bool" where
  "square b = (\<forall>row\<in>set b. length row = length b)"

text \<open>Some run of five cells of the player starts at \<open>(i, j)\<close>.\<close>

definition anyRun :: "int list list \<Rightarrow> int \<Rightarrow> int \<Rightarrow> int \<Rightarrow> bool" where
  "anyRun b p i j = (\<exists>d\<in>set directions. \<forall>(r, c)\<in>set (line5 i j d). cellAt b r c = Some p)"

text \<open>
  A state between two events of the loop: the board has its 15 rows of 15 cells and the
  mutex is free.
\<close>

definition ready :: "GameState \<Rightarrow> bool" where
  "ready gs = (wf_board (board gs) \<and> \<not> mu gs)"

text \<open>The four fields of the game proper are the same in both states.\<close>

definition sameGame :: "GameState \<Rightarrow> GameState \<Rightarrow> bool" where
  "sameGame gs gs' =
     (board gs' = board gs \<and> currentPlayer gs' = currentPlayer gs \<and> winner gs' = winner gs \<and>
      gameOver gs' = gameOver gs)"

text \<open>The coordinates name a cell of the board.\<close>

definition inRange :: "int \<Rightarrow> int \<Rightarrow> bool" where
  "inRange x y = (0 \<le> x \<and> x < BoardSize \<and> 0 \<le> y \<and> y < BoardSize)"

text \<open>The outcome fields agree: the game is over exactly when there is a winner value.\<close>

definition consistent :: "GameState \<Rightarrow> bool" where
  "consistent gs = (gameOver gs \<longleftrightarrow> winner gs \<noteq> 0)"

text \<open>An event other than an inbound Move whose \<open>Player\<close> field is zero.\<close>

fun namedMove :: "event \<Rightarrow> bool" where
  "namedMove (Input input) = True"
| "namedMove (Net msg) = (Type msg \<noteq> MsgTypeMove \<or> Player msg \<noteq> 0)"




text \<open>The second board is the first, or the first with one empty cell filled.\<close>

definition fills :: "int list list \<Rightarrow> int list list \<Rightarrow> bool" where
  "fills b b' =
     (b' = b \<or> (\<exists>x y p. inRange x y \<and> cellAt b x y = Some Empty \<and> b' = setCell b x y p))"

subsection \<open>Sample positions\<close>

text \<open>
  The scenario of the specification: on the empty board Player 1 has placed at
  \<open>(7,0)\<close>, \<open>(7,1)\<close>, \<open>(7,2)\<close>, \<open>(7,3)\<close> and \<open>(7,4)\<close>, Player 2 in between at
  \<open>(8,0)\<close> to \<open>(8,3)\<close>.
\<close>

definition place :: "int \<Rightarrow> int list list \<Rightarrow> (int \<times> int) list \<Rightarrow> int list list" where
  "place p b cs = foldl (\<lambda>b' (x, y). setCell b' x y p) b cs"

definition fourEach :: "int list list" where
  "fourEach =
     place Player2 (place Player1 (NewBoard BoardSize) [(7, 0), (7, 1), (7, 2), (7, 3)])
       [(8, 0), (8, 1), (8, 2), (8, 3)]"

definition rowOfFive :: "int list list" where
  "rowOfFive = setCell fourEach 7 4 Player1"

text \<open>A game in progress on a given board: whose turn it is, and who the local player is.\<close>

definition position :: "int list list \<Rightarrow> int \<Rightarrow> int \<Rightarrow> GameState" where
  "position b turn me =
     \<lparr>board = b, currentPlayer = turn, winner = 0, gameOver = False, mu = False,
      playerID = me, chatHistory = [], needsRedraw = False, quitClosed = False, sent = []\<rparr>"

text \<open>The Move message a player sends for a cell.\<close>

definition moveMsg :: "int \<Rightarrow> int \<Rightarrow> int \<Rightarrow> Message" where
  "moveMsg p x y = zeroMessage\<lparr>Type := MsgTypeMove, Player := p, X := x, Y := y\<rparr>"

text \<open>
  A board with one cell left: a filling without a run of five, changed so that Player 1
  holds \<open>(0,0)\<close> to \<open>(0,3)\<close> and \<open>(0,5)\<close> while \<open>(0,4)\<close> is still empty.
\<close>

definition patternBoard :: "int list list" where
  "patternBoard =
     map (\<lambda>i. map (\<lambda>j. if (j + 2 * i) mod 4 < 2 then Player1 else Player2) [0..14]) [0..14]"

definition lastCellOpen :: "int list list" where
  "lastCellOpen = setCell (place Player1 patternBoard [(0, 2), (0, 3)]) 0 4 Empty"

text \<open>
  The server's side of the scenario as events: its own moves are typed, the opponent's
  arrive as messages; the fifth move at \<open>(7,4)\<close> ends the game.
\<close>

definition scenario :: "event list" where
  "scenario =
     [Input ''7,0'', Net (moveMsg Player2 8 0), Input ''7,1'', Net (moveMsg Player2 8 1),
      Input ''7,2'', Net (moveMsg Player2 8 2), Input ''7,3'', Net (moveMsg Player2 8 3),
      Input ''7,4'']"

text \<open>
  Two messages in which the peer leaves the fields at zero, as a JSON object that names
  only \<open>type\<close> decodes: a State message, then a Move.
\<close>

definition strayMessages :: "event list" where
  "strayMessages =
     [Net (zeroMessage\<lparr>Type := MsgTypeState\<rparr>), Net (zeroMessage\<lparr>Type := MsgTypeMove\<rparr>)]"

text \<open>
  The end of the scenario as the other side sees it. The winner's \<open>handleUserInput\<close>
  hands a State message and the Move message to two goroutines; here the State message
  arrives first.
\<close>

definition endMsg :: Message where
  "endMsg = zeroMessage\<lparr>Type := MsgTypeState, Winner := Player1, Turn := 0\<rparr>"

definition lastMessages :: "event list" where
  "lastMessages = [Net endMsg, Net (moveMsg Player1 7 4)]"



section \<open>Proofs\<close>

declare colLoop.simps [simp del] rowLoop.simps [simp del]

subsection \<open>The win check finds exactly the runs of five\<close>

lemma wf_board_square: "wf_board b \<Longrightarrow> square b"
  by (auto simp: wf_board_def square_def)

lemma cellAt_square:
  "square b \<Longrightarrow>
   cellAt b i j = (if 0 \<le> i \<and> i < int (length b) \<and> 0 \<le> j \<and> j < int (length b)
                   then Some (b ! nat i ! nat j) else None)"
  by (auto simp: cellAt_def index_def square_def)

lemma cellsEq_in_range:
  "square b \<Longrightarrow>
   \<forall>(r, c)\<in>set cs. 0 \<le> r \<and> r < int (length b) \<and> 0 \<le> c \<and> c < int (length b) \<Longrightarrow>
   cellsEq b p cs = Some (\<forall>(r, c)\<in>set cs. cellAt b r c = Some p)"
proof (induction cs)
  case Nil
  then show ?case by simp
next
  case (Cons a cs)
  obtain r c where a: "a = (r, c)" by (cases a)
  from Cons.prems a have rng: "0 \<le> r" "r < int (length b)" "0 \<le> c" "c < int (length b)"
    by auto
  from Cons have IH: "cellsEq b p cs = Some (\<forall>(r, c)\<in>set cs. cellAt b r c = Some p)"
    by auto
  show ?case
    using rng IH by (simp add: a cellAt_square [OF Cons.prems(1)])
qed

lemma orElse_Some: "orElse (Some x) (Some y) = Some (x \<or> y)"
  by (cases x) auto

lemma anyRun_unfold:
  "anyRun b p i j =
     ((cellAt b i j = Some p \<and> cellAt b i (j + 1) = Some p \<and> cellAt b i (j + 2) = Some p \<and>
       cellAt b i (j + 3) = Some p \<and> cellAt b i (j + 4) = Some p) \<or>
      (cellAt b i j = Some p \<and> cellAt b (i + 1) j = Some p \<and> cellAt b (i + 2) j = Some p \<and>
       cellAt b (i + 3) j = Some p \<and> cellAt b (i + 4) j = Some p) \<or>
      (cellAt b i j = Some p \<and> cellAt b (i + 1) (j + 1) = Some p \<and>
       cellAt b (i + 2) (j + 2) = Some p \<and> cellAt b (i + 3) (j + 3) = Some p \<and>
       cellAt b (i + 4) (j + 4) = Some p) \<or>
      (cellAt b i j = Some p \<and> cellAt b (i + 1) (j - 1) = Some p \<and>
       cellAt b (i + 2) (j - 2) = Some p \<and> cellAt b (i + 3) (j - 3) = Some p \<and>
       cellAt b (i + 4) (j - 4) = Some p))"
  by (auto simp: anyRun_def directions_def line5_def)

lemma probe_square:
  assumes sq: "square b" and i: "0 \<le> i" "i < int (length b)" and j: "0 \<le> j" "j < int (length b)"
  shows "probe b p i j = Some (anyRun b p i j)"
proof -
  have c0: "cellAt b i j = Some (b ! nat i ! nat j)"
    using i j by (simp add: cellAt_square [OF sq])
  show ?thesis
  proof (cases "b ! nat i ! nat j = p")
    case False
    then show ?thesis
      by (simp add: probe_def c0 anyRun_unfold)
  next
    case True
    have h: "(if j + 4 < int (length b)
              then cellsEq b p [(i, j + 1), (i, j + 2), (i, j + 3), (i, j + 4)] else Some False)
           = Some (cellAt b i (j + 1) = Some p \<and> cellAt b i (j + 2) = Some p \<and>
                   cellAt b i (j + 3) = Some p \<and> cellAt b i (j + 4) = Some p)"
      using i j by (simp add: cellsEq_in_range [OF sq] cellAt_square [OF sq])
    have v: "(if i + 4 < int (length b)
              then cellsEq b p [(i + 1, j), (i + 2, j), (i + 3, j), (i + 4, j)] else Some False)
           = Some (cellAt b (i + 1) j = Some p \<and> cellAt b (i + 2) j = Some p \<and>
                   cellAt b (i + 3) j = Some p \<and> cellAt b (i + 4) j = Some p)"
      using i j by (simp add: cellsEq_in_range [OF sq] cellAt_square [OF sq])
    have d: "(if i + 4 < int (length b) \<and> j + 4 < int (length b)
              then cellsEq b p [(i + 1, j + 1), (i + 2, j + 2), (i + 3, j + 3), (i + 4, j + 4)]
              else Some False)
           = Some (cellAt b (i + 1) (j + 1) = Some p \<and> cellAt b (i + 2) (j + 2) = Some p \<and>
                   cellAt b (i + 3) (j + 3) = Some p \<and> cellAt b (i + 4) (j + 4) = Some p)"
      using i j by (simp add: cellsEq_in_range [OF sq] cellAt_square [OF sq])
    have a: "(if i + 4 < int (length b) \<and> j - 4 \<ge> 0
              then cellsEq b p [(i + 1, j - 1), (i + 2, j - 2), (i + 3, j - 3), (i + 4, j - 4)]
              else Some False)
           = Some (cellAt b (i + 1) (j - 1) = Some p \<and> cellAt b (i + 2) (j - 2) = Some p \<and>
                   cellAt b (i + 3) (j - 3) = Some p \<and> cellAt b (i + 4) (j - 4) = Some p)"
      using i j by (simp add: cellsEq_in_range [OF sq] cellAt_square [OF sq])
    have c0': "cellAt b i j = Some p"
      using c0 True by simp
    show ?thesis
      unfolding probe_def Let_def h v d a orElse_Some anyRun_unfold
      by (simp add: c0')
  qed
qed


lemma colLoop_square:
  "square b \<Longrightarrow> 0 \<le> i \<Longrightarrow> i < int (length b) \<Longrightarrow> 0 \<le> j \<Longrightarrow>
   colLoop b p i j = Some (\<exists>j'\<in>{j..<int (length b)}. anyRun b p i j')"
proof (induction b p i j rule: colLoop.induct)
  case (1 board player i j)
  show ?case
  proof (cases "j < int (length board)")
    case False
    then show ?thesis
      by (subst colLoop.simps) simp
  next
    case True
    have pr: "probe board player i j = Some (anyRun board player i j)"
      using "1.prems" True by (simp add: probe_square)
    show ?thesis
    proof (cases "anyRun board player i j")
      case hit: True
      then have "\<exists>j'\<in>{j..<int (length board)}. anyRun board player i j'"
        using True by auto
      then show ?thesis
        using True pr hit by (subst colLoop.simps) simp
    next
      case miss: False
      have IH: "colLoop board player i (j + 1)
                = Some (\<exists>j'\<in>{j + 1..<int (length board)}. anyRun board player i j')"
        using "1.IH" [OF True pr miss] "1.prems" by simp
      have "(\<exists>j'\<in>{j + 1..<int (length board)}. anyRun board player i j')
            = (\<exists>j'\<in>{j..<int (length board)}. anyRun board player i j')"
      proof
        assume "\<exists>j'\<in>{j + 1..<int (length board)}. anyRun board player i j'"
        then show "\<exists>j'\<in>{j..<int (length board)}. anyRun board player i j'"
          by auto
      next
        assume "\<exists>j'\<in>{j..<int (length board)}. anyRun board player i j'"
        then obtain j' where j': "j \<le> j'" "j' < int (length board)" "anyRun board player i j'"
          by auto
        with miss have "j' \<noteq> j" by auto
        with j' show "\<exists>j'\<in>{j + 1..<int (length board)}. anyRun board player i j'"
          by auto
      qed
      then show ?thesis
        using True pr miss IH by (subst colLoop.simps) simp
    qed
  qed
qed


lemma rowLoop_square:
  "square b \<Longrightarrow> 0 \<le> i \<Longrightarrow>
   rowLoop b p i
   = Some (\<exists>i'\<in>{i..<int (length b)}. \<exists>j'\<in>{0..<int (length b)}. anyRun b p i' j')"
proof (induction b p i rule: rowLoop.induct)
  case (1 board player i)
  define n where "n = int (length board)"
  define R where "R = (\<lambda>i'. \<exists>j'\<in>{0..<n}. anyRun board player i' j')"
  have goal: "rowLoop board player i = Some (\<exists>i'\<in>{i..<n}. R i')"
  proof (cases "i < n")
    case False
    then show ?thesis
      by (subst rowLoop.simps) (simp add: n_def)
  next
    case True
    have col: "colLoop board player i 0 = Some (R i)"
      using "1.prems" True by (simp add: colLoop_square n_def R_def)
    show ?thesis
    proof (cases "R i")
      case hit: True
      moreover have "i \<in> {i..<n}"
        using True by simp
      ultimately have "\<exists>i'\<in>{i..<n}. R i'"
        by blast
      then show ?thesis
        using True col hit by (subst rowLoop.simps) (simp add: n_def)
    next
      case miss: False
      have IH: "rowLoop board player (i + 1) = Some (\<exists>i'\<in>{i + 1..<n}. R i')"
        using "1.IH" [of "R i"] True col miss "1.prems" by (simp add: n_def R_def)
      have "(\<exists>i'\<in>{i + 1..<n}. R i') = (\<exists>i'\<in>{i..<n}. R i')"
      proof
        assume "\<exists>i'\<in>{i + 1..<n}. R i'"
        then show "\<exists>i'\<in>{i..<n}. R i'"
          by auto
      next
        assume "\<exists>i'\<in>{i..<n}. R i'"
        then obtain i' where i': "i \<le> i'" "i' < n" "R i'"
          by auto
        with miss have "i' \<noteq> i" by auto
        with i' have "i' \<in> {i + 1..<n}" by simp
        with i'(3) show "\<exists>i'\<in>{i + 1..<n}. R i'"
          by blast
      qed
      then show ?thesis
        using True col miss IH by (subst rowLoop.simps) (simp add: n_def)
    qed
  qed
  then show ?case
    by (simp add: n_def R_def)
qed

lemma checkWinLogic_square: "square b \<Longrightarrow> checkWinLogic b p = Some (hasFiveInRow b p)"
  by (simp add: checkWinLogic_def rowLoop_square hasFiveInRow_def anyRun_def)

lemma wf_NewBoard: "wf_board (NewBoard BoardSize)"
  by (simp add: wf_board_def NewBoard_def BoardSize_def)

lemma cellAt_NewBoard: "cellAt (NewBoard n) i j = Some v \<Longrightarrow> v = 0"
  by (auto simp: cellAt_def index_def NewBoard_def split: if_splits)

lemma hasFiveInRow_NewBoard: "p \<noteq> 0 \<Longrightarrow> \<not> hasFiveInRow (NewBoard n) p"
  unfolding hasFiveInRow_def
proof (intro notI, elim bexE)
  fix i j d
  assume p: "p \<noteq> 0" and all: "\<forall>(r, c)\<in>set (line5 i j d). cellAt (NewBoard n) r c = Some p"
  have "(i, j) \<in> set (line5 i j d)"
    by (simp add: line5_def)
  with all have "cellAt (NewBoard n) i j = Some p"
    by blast
  with p show False
    by (auto dest: cellAt_NewBoard)
qed

text \<open>
  Claim C1. On every board of 15 rows of 15 cells and for each of the two players,
  \<open>checkWinLogic\<close> returns, and returns \<open>true\<close> exactly when the board holds five
  consecutive cells of that player along a row, a column or one of the two diagonals;
  on the empty board of \<open>NewBoard\<close> it returns \<open>false\<close>.
\<close>

theorem checkWinLogic_iff_five_in_row:
  assumes "wf_board b" and "p = Player1 \<or> p = Player2"
  shows "checkWinLogic b p = Some (hasFiveInRow b p) \<and>
         checkWinLogic (NewBoard BoardSize) p = Some False"
proof -
  have run: "checkWinLogic b p = Some (hasFiveInRow b p)"
    using assms(1) by (simp add: checkWinLogic_square wf_board_square)
  have "p \<noteq> 0"
    using assms(2) by (auto simp: Player1_def Player2_def)
  then have fresh: "checkWinLogic (NewBoard BoardSize) p = Some False"
    by (simp add: checkWinLogic_square wf_board_square wf_NewBoard hasFiveInRow_NewBoard)
  show ?thesis
    using run fresh by (rule conjI)
qed

theorem checkWinLogic_iff_five_in_row_witness:
  "hasFiveInRow rowOfFive Player1 \<and> \<not> hasFiveInRow fourEach Player1 \<and>
   checkWinLogic (NewBoard BoardSize) Player1 = Some False"
proof -
  have wf5: "wf_board rowOfFive" and wf4: "wf_board fourEach"
    by code_simp+
  have pl: "Player1 = Player1 \<or> Player1 = Player2"
    by simp
  have five: "checkWinLogic rowOfFive Player1 = Some True"
    by code_simp
  have four: "checkWinLogic fourEach Player1 = Some False"
    by code_simp
  from checkWinLogic_iff_five_in_row [OF wf5 pl] five
  have "hasFiveInRow rowOfFive Player1" "checkWinLogic (NewBoard BoardSize) Player1 = Some False"
    by simp_all
  moreover from checkWinLogic_iff_five_in_row [OF wf4 pl] four
  have "\<not> hasFiveInRow fourEach Player1"
    by simp
  ultimately show ?thesis
    by blast
qed

text \<open>
  Claim C10. The win check does not set \<open>Empty\<close> apart: asked about player \<open>0\<close> on the
  fresh board of \<open>NewBoard\<close>, it returns \<open>true\<close>, the five empty cells at the start of
  the first row being a run.
\<close>

theorem checkWinLogic_Empty_NewBoard:
  "checkWinLogic (NewBoard BoardSize) Empty = Some True"
  by code_simp

subsection \<open>The mutex\<close>

lemma Lock_free [simp]: "\<not> mu gs \<Longrightarrow> Lock gs = Some (gs\<lparr>mu := True\<rparr>)"
  by (simp add: Lock_def)

lemma Unlock_held [simp]: "mu gs \<Longrightarrow> Unlock gs = Some (gs\<lparr>mu := False\<rparr>)"
  by (simp add: Unlock_def)

lemma Unlock_free [simp]: "\<not> mu gs \<Longrightarrow> Unlock gs = None"
  by (simp add: Unlock_def)

lemma mu_False_id [simp]: "\<not> mu gs \<Longrightarrow> gs\<lparr>mu := False\<rparr> = gs"
  by (cases gs) simp

lemma mu_simps [simp]:
  "mu (SetNeedsRedraw gs) = mu gs"
  "mu (SendMessage m gs) = mu gs"
  "mu (AddChatMessage a c gs) = mu gs"
  "mu (closeQuit gs) = mu gs"
  by (simp_all add: SetNeedsRedraw_def closeQuit_def SendMessage_def AddChatMessage_def Let_def)

lemma mu_update_commutes [simp]:
  "SetNeedsRedraw (gs\<lparr>mu := b\<rparr>) = (SetNeedsRedraw gs)\<lparr>mu := b\<rparr>"
  "SendMessage m (gs\<lparr>mu := b\<rparr>) = (SendMessage m gs)\<lparr>mu := b\<rparr>"
  "AddChatMessage a c (gs\<lparr>mu := b\<rparr>) = (AddChatMessage a c gs)\<lparr>mu := b\<rparr>"
  by (simp_all add: SetNeedsRedraw_def SendMessage_def AddChatMessage_def Let_def)

subsection \<open>Moves that are not applied\<close>

lemma cellAt_wf:
  "wf_board b \<Longrightarrow>
   cellAt b i j = (if inRange i j then Some (b ! nat i ! nat j) else None)"
  by (auto simp: cellAt_def index_def wf_board_def inRange_def)

lemma wf_setCell:
  assumes "wf_board b"
  shows "wf_board (setCell b x y v)"
proof -
  have "int (length row) = BoardSize" if "row \<in> set (setCell b x y v)" for row
  proof -
    from that have "row \<in> insert ((b ! nat x)[nat y := v]) (set b)"
      using set_update_subset_insert [of b "nat x"] by (auto simp: setCell_def)
    moreover have "int (length ((b ! nat x)[nat y := v])) = BoardSize" if "nat x < length b"
      using that assms by (simp add: wf_board_def)
    moreover have "setCell b x y v = b" if "\<not> nat x < length b"
      using that by (simp add: setCell_def list_update_beyond)
    ultimately show ?thesis
      using assms that by (cases "nat x < length b") (auto simp: wf_board_def)
  qed
  then show ?thesis
    using assms by (simp add: wf_board_def setCell_def)
qed

lemma placePieceInternal_wf:
  "wf_board (board gs) \<Longrightarrow>
   placePieceInternal x y p gs =
     (if inRange x y \<and> cellAt (board gs) x y = Some Empty
      then Some (True, gs\<lparr>board := setCell (board gs) x y p\<rparr>)
      else Some (False, gs))"
  by (auto simp: placePieceInternal_def cellAt_wf inRange_def)

lemma placePieceInternal_invalid:
  assumes "wf_board (board gs)"
      and "\<not> inRange x y \<or> (\<exists>v. cellAt (board gs) x y = Some v \<and> v \<noteq> Empty)"
  shows "placePieceInternal x y p gs = Some (False, gs)"
  using assms by (auto simp: placePieceInternal_wf)

lemma sameGame_simps [simp]:
  "sameGame gs gs"
  "sameGame gs (SetNeedsRedraw gs') = sameGame gs gs'"
  "sameGame gs (closeQuit gs') = sameGame gs gs'"
  "sameGame gs (SendMessage m gs') = sameGame gs gs'"
  "sameGame gs (AddChatMessage a c gs') = sameGame gs gs'"
  "sameGame gs (gs'\<lparr>mu := b\<rparr>) = sameGame gs gs'"
  by (simp_all add: sameGame_def SetNeedsRedraw_def closeQuit_def SendMessage_def
      AddChatMessage_def Let_def)

lemma gameOver_simps [simp]:
  "gameOver (SetNeedsRedraw gs) = gameOver gs"
  "gameOver (SendMessage m gs) = gameOver gs"
  "gameOver (AddChatMessage a c gs) = gameOver gs"
  "gameOver (closeQuit gs) = gameOver gs"
  by (simp_all add: SetNeedsRedraw_def closeQuit_def SendMessage_def AddChatMessage_def Let_def)

text \<open>The local move that is not applied only asks for a redraw.\<close>

lemma localMove_not_applied:
  assumes "ready gs"
      and "\<not> (currentPlayer gs = p \<and> \<not> gameOver gs \<and> inRange x y \<and>
               cellAt (board gs) x y = Some Empty)"
  shows "localMove x y p gs = Some (SetNeedsRedraw gs)"
  using assms by (auto simp: ready_def localMove_def placePieceInternal_wf)

lemma handleUserInput_invalid:
  assumes "ready gs"
      and "\<not> inRange x y \<or> (\<exists>v. cellAt (board gs) x y = Some v \<and> v \<noteq> Empty)"
      and "parseMove input = Coords x y"
  shows "\<exists>gs'. handleUserInput input gs = Some gs' \<and> sameGame gs gs'"
proof -
  have "localMove x y p gs = Some (SetNeedsRedraw gs)" for p
    using assms(1,2) by (intro localMove_not_applied) auto
  then show ?thesis
    using assms(1,3) by (simp add: handleUserInput_def Let_def ready_def)
qed

text \<open>
  An inbound Move that is not applied, in a game that is not over: the state changes at
  most by the Error reply.
\<close>

lemma handleNetworkMessage_not_applied:
  assumes "ready gs" and "\<not> gameOver gs" and "Type m = MsgTypeMove"
      and "\<not> (Player m \<noteq> playerID gs \<and> currentPlayer gs = Player m \<and>
               inRange (X m) (Y m) \<and> cellAt (board gs) (X m) (Y m) = Some Empty)"
  shows "\<exists>gs'. handleNetworkMessage m gs = Some gs' \<and> sameGame gs gs' \<and> ready gs'"
  using assms
  by (auto simp: ready_def handleNetworkMessage_def dispatch_def Let_def placePieceInternal_wf
      MsgTypeMove_def SendMessage_def sameGame_def)

text \<open>
  In a game that is over the handler does not return: it unlocks the mutex twice.
\<close>

lemma handleNetworkMessage_after_end:
  assumes "\<not> mu gs" and "gameOver gs"
  shows "handleNetworkMessage m gs = None"
  using assms by (simp add: handleNetworkMessage_def Let_def)

subsection \<open>The claims on moves that are not applied, and on State messages\<close>

text \<open>
  Claim C3. A move to a cell that is out of range or occupied fails: \<open>placePieceInternal\<close>
  returns \<open>false\<close> and the state it was given, and both handlers, given such a move
  (the network handler while the game is not over, when it calls \<open>placePieceInternal\<close>),
  return with the board, \<open>currentPlayer\<close>, \<open>winner\<close> and \<open>gameOver\<close> as they were.
\<close>

theorem rejected_move_leaves_game_unchanged:
  assumes "ready gs"
      and "\<not> inRange x y \<or> (\<exists>v. cellAt (board gs) x y = Some v \<and> v \<noteq> Empty)"
  shows "placePieceInternal x y p gs = Some (False, gs) \<and>
         (parseMove input = Coords x y \<longrightarrow>
            (\<exists>gs'. handleUserInput input gs = Some gs' \<and> sameGame gs gs')) \<and>
         (\<not> gameOver gs \<and> Type m = MsgTypeMove \<and> X m = x \<and> Y m = y \<longrightarrow>
            (\<exists>gs'. handleNetworkMessage m gs = Some gs' \<and> sameGame gs gs'))"
proof (intro conjI impI)
  show "placePieceInternal x y p gs = Some (False, gs)"
    using assms by (simp add: ready_def placePieceInternal_invalid)
next
  assume "parseMove input = Coords x y"
  then show "\<exists>gs'. handleUserInput input gs = Some gs' \<and> sameGame gs gs'"
    using assms by (rule handleUserInput_invalid [rotated 2])
next
  assume a: "\<not> gameOver gs \<and> Type m = MsgTypeMove \<and> X m = x \<and> Y m = y"
  then have "\<not> (Player m \<noteq> playerID gs \<and> currentPlayer gs = Player m \<and>
               inRange (X m) (Y m) \<and> cellAt (board gs) (X m) (Y m) = Some Empty)"
    using assms(2) by auto
  then show "\<exists>gs'. handleNetworkMessage m gs = Some gs' \<and> sameGame gs gs'"
    using handleNetworkMessage_not_applied [of gs m] assms(1) a by blast
qed

theorem rejected_move_leaves_game_unchanged_witness:
  "placePieceInternal 8 0 Player1 (position fourEach Player1 Player1)
     = Some (False, position fourEach Player1 Player1) \<and>
   (\<exists>gs'. handleUserInput ''8,0'' (position fourEach Player1 Player1) = Some gs' \<and>
          sameGame (position fourEach Player1 Player1) gs') \<and>
   (\<exists>gs'. handleNetworkMessage (moveMsg Player1 8 0) (position fourEach Player1 Player2)
            = Some gs' \<and>
          sameGame (position fourEach Player1 Player2) gs') \<and>
   (\<exists>gs'. handleUserInput ''15,3'' (position fourEach Player1 Player1) = Some gs' \<and>
          sameGame (position fourEach Player1 Player1) gs')"
proof -
  have "wf_board fourEach"
    by code_simp
  then have rdy: "ready (position fourEach Player1 me)" for me
    by (simp add: ready_def position_def)
  have "cellAt fourEach 8 0 = Some Player2"
    by code_simp
  then have occ: "\<not> inRange 8 0 \<or>
      (\<exists>v. cellAt (board (position fourEach Player1 me)) 8 0 = Some v \<and> v \<noteq> Empty)" for me
    by (simp add: position_def Player2_def Empty_def)
  have out: "\<not> inRange 15 3 \<or>
      (\<exists>v. cellAt (board (position fourEach Player1 Player1)) 15 3 = Some v \<and> v \<noteq> Empty)"
    by (simp add: inRange_def BoardSize_def)
  have p1: "parseMove ''8,0'' = Coords 8 0" and p2: "parseMove ''15,3'' = Coords 15 3"
    by code_simp+
  have m: "\<not> gameOver (position fourEach Player1 Player2) \<and>
           Type (moveMsg Player1 8 0) = MsgTypeMove \<and> X (moveMsg Player1 8 0) = 8 \<and>
           Y (moveMsg Player1 8 0) = 0"
    by (simp add: moveMsg_def position_def)
  show ?thesis
    using rejected_move_leaves_game_unchanged
        [where gs = "position fourEach Player1 Player1" and x = 8 and y = 0 and p = Player1
           and input = "''8,0''" and m = "moveMsg Player1 8 0", OF rdy occ]
      rejected_move_leaves_game_unchanged
        [where gs = "position fourEach Player1 Player2" and x = 8 and y = 0 and p = Player1
           and input = "''8,0''" and m = "moveMsg Player1 8 0", OF rdy occ]
      rejected_move_leaves_game_unchanged
        [where gs = "position fourEach Player1 Player1" and x = 15 and y = 3 and p = Player1
           and input = "''15,3''" and m = "moveMsg Player1 15 3", OF rdy out]
      p1 p2 m
    by blast
qed


text \<open>
  Claim C4 says that an inbound Move whose sender is not \<open>currentPlayer\<close> is discarded
  and leaves the game as it was. While the game is not over that is so
  (\<open>out_of_turn_move_discarded\<close>). Once it is over the handler does not discard the
  message: it aborts. At the end of the scenario the side of Player 2 receives Player 1's
  State message, which ends the game and sets \<open>currentPlayer\<close> to zero, and then Player
  1's last Move; handling that Move unlocks the mutex twice, and the call does not
  return.
\<close>

theorem move_after_game_over_aborts:
  "map_option gameOver (run [Net endMsg] (position fourEach Player1 Player2)) = Some True \<and>
   map_option currentPlayer (run [Net endMsg] (position fourEach Player1 Player2)) = Some 0 \<and>
   run lastMessages (position fourEach Player1 Player2) = None"
  by code_simp

text \<open>
  Claim C8. While the game is not over, an inbound State message sets \<open>currentPlayer\<close> to
  its \<open>Turn\<close>, \<open>winner\<close> to its \<open>Winner\<close> and \<open>gameOver\<close> to \<open>Winner != 0\<close>, and
  leaves the board as it was.
\<close>

theorem state_message_overwrites_outcome:
  assumes "\<not> mu gs" and "\<not> gameOver gs" and "Type m = MsgTypeState"
  shows "\<exists>gs'. handleNetworkMessage m gs = Some gs' \<and> currentPlayer gs' = Turn m \<and>
           winner gs' = Winner m \<and> gameOver gs' = (Winner m \<noteq> 0) \<and> board gs' = board gs"
  using assms
  by (auto simp: handleNetworkMessage_def dispatch_def Let_def MsgTypeMove_def MsgTypeChat_def
      MsgTypeState_def closeQuit_def SetNeedsRedraw_def)

theorem state_message_overwrites_outcome_witness:
  "\<exists>gs'. handleNetworkMessage endMsg (position fourEach Player1 Player2) = Some gs' \<and>
         currentPlayer gs' = 0 \<and> winner gs' = Player1 \<and> gameOver gs' \<and>
         board gs' = fourEach"
proof -
  have free: "\<not> mu (position fourEach Player1 Player2)"
    and running: "\<not> gameOver (position fourEach Player1 Player2)"
    by (simp_all add: position_def)
  have t: "Type endMsg = MsgTypeState"
    by (simp add: endMsg_def)
  show ?thesis
    using state_message_overwrites_outcome [OF free running t]
    by (simp add: endMsg_def zeroMessage_def position_def Player1_def)
qed

subsection \<open>Moves that are applied\<close>

lemma checkWinLogic_wf: "wf_board b \<Longrightarrow> checkWinLogic b p = Some (hasFiveInRow b p)"
  by (simp add: checkWinLogic_square wf_board_square)

lemma placePieceInternal_valid:
  assumes "wf_board (board gs)" and "inRange x y" and "cellAt (board gs) x y = Some Empty"
  shows "placePieceInternal x y p gs = Some (True, gs\<lparr>board := setCell (board gs) x y p\<rparr>)"
  using assms by (simp add: placePieceInternal_wf)

lemma placePieceInternal_True:
  assumes "wf_board (board gs)" and "placePieceInternal x y p gs = Some (True, gs1)"
  shows "inRange x y \<and> cellAt (board gs) x y = Some Empty \<and>
         gs1 = gs\<lparr>board := setCell (board gs) x y p\<rparr>"
  using assms by (auto simp: placePieceInternal_wf split: if_splits)

text \<open>What an applied move leaves behind, for either handler.\<close>

lemma localMove_applied:
  assumes rdy: "ready gs" and turn: "currentPlayer gs = p" and run: "\<not> gameOver gs"
      and cell: "inRange x y" "cellAt (board gs) x y = Some Empty"
  shows "\<exists>gs'. localMove x y p gs = Some gs' \<and> board gs' = setCell (board gs) x y p \<and>
           playerID gs' = playerID gs \<and> \<not> mu gs' \<and>
           (if hasFiveInRow (setCell (board gs) x y p) p
              then winner gs' = p \<and> gameOver gs' \<and> currentPlayer gs' = currentPlayer gs
            else if checkDrawLogic (setCell (board gs) x y p)
              then winner gs' = 3 \<and> gameOver gs' \<and> currentPlayer gs' = currentPlayer gs
            else winner gs' = winner gs \<and> \<not> gameOver gs' \<and> currentPlayer gs' = sub64 3 p)"
proof -
  have wf: "wf_board (board gs)" and free: "\<not> mu gs"
    using rdy by (simp_all add: ready_def)
  have wf': "wf_board (setCell (board gs) x y p)"
    using wf by (rule wf_setCell)
  have place: "placePieceInternal x y p (gs\<lparr>mu := True\<rparr>)
               = Some (True, gs\<lparr>mu := True, board := setCell (board gs) x y p\<rparr>)"
    using placePieceInternal_valid [of "gs\<lparr>mu := True\<rparr>" x y p] wf cell by simp
  show ?thesis
    using turn run free
    by (simp add: localMove_def place checkWinLogic_wf [OF wf'] Let_def SetNeedsRedraw_def
        SendMessage_def closeQuit_def)
qed

lemma handleUserInput_move:
  assumes "\<not> mu gs" "playerID gs = p" "p \<noteq> 0" "currentPlayer gs = p" "\<not> gameOver gs"
      and "\<not> HasPrefix input ''/c ''" "parseMove input = Coords x y"
  shows "handleUserInput input gs = localMove x y p gs"
  using assms by (simp add: handleUserInput_def Let_def)

lemma handleNetworkMessage_applied:
  assumes rdy: "ready gs" and turn: "currentPlayer gs = Player m"
      and run: "\<not> gameOver gs" and other: "Player m \<noteq> playerID gs"
      and mv: "Type m = MsgTypeMove"
      and cell: "inRange (X m) (Y m)" "cellAt (board gs) (X m) (Y m) = Some Empty"
  shows "\<exists>gs'. handleNetworkMessage m gs = Some gs' \<and>
           board gs' = setCell (board gs) (X m) (Y m) (Player m) \<and>
           playerID gs' = playerID gs \<and> sent gs' = sent gs \<and> \<not> mu gs' \<and>
           (if hasFiveInRow (setCell (board gs) (X m) (Y m) (Player m)) (Player m)
              then winner gs' = Player m \<and> gameOver gs' \<and> currentPlayer gs' = currentPlayer gs
            else if checkDrawLogic (setCell (board gs) (X m) (Y m) (Player m))
              then winner gs' = 3 \<and> gameOver gs' \<and> currentPlayer gs' = currentPlayer gs
            else winner gs' = winner gs \<and> \<not> gameOver gs' \<and> currentPlayer gs' = playerID gs)"
proof -
  have wf: "wf_board (board gs)" and free: "\<not> mu gs"
    using rdy by (simp_all add: ready_def)
  have wf': "wf_board (setCell (board gs) (X m) (Y m) (Player m))"
    using wf by (rule wf_setCell)
  have place: "placePieceInternal (X m) (Y m) (Player m) (gs\<lparr>mu := True\<rparr>)
               = Some (True, gs\<lparr>mu := True,
                    board := setCell (board gs) (X m) (Y m) (Player m)\<rparr>)"
    using placePieceInternal_valid [of "gs\<lparr>mu := True\<rparr>" "X m" "Y m" "Player m"] wf cell
    by simp
  show ?thesis
    using turn run other mv free
    by (simp add: handleNetworkMessage_def dispatch_def place checkWinLogic_wf [OF wf'] Let_def
        SetNeedsRedraw_def closeQuit_def MsgTypeMove_def)
qed

subsection \<open>The order of the win and draw checks\<close>

text \<open>
  Claim C2. The win is checked before the draw. When a move of player \<open>p\<close> is applied,
  completes five in a row for \<open>p\<close> and fills the last empty cell, the handler that applies
  it (the local one for the local player's move, the network one for the opponent's)
  returns with \<open>winner = p\<close> and \<open>gameOver = true\<close>; for the players 1 and 2 that is never
  the draw value 3.
\<close>

theorem win_checked_before_draw:
  assumes rdy: "ready gs" and run: "\<not> gameOver gs" and turn: "currentPlayer gs = p"
      and cell: "inRange x y" "cellAt (board gs) x y = Some Empty"
      and five: "hasFiveInRow (setCell (board gs) x y p) p"
      and full: "checkDrawLogic (setCell (board gs) x y p)"
  shows "(playerID gs = p \<and> p \<noteq> 0 \<and> \<not> HasPrefix input ''/c '' \<and>
          parseMove input = Coords x y \<longrightarrow>
            (\<exists>gs'. handleUserInput input gs = Some gs' \<and> winner gs' = p \<and> gameOver gs')) \<and>
         (playerID gs \<noteq> p \<and> Type m = MsgTypeMove \<and> Player m = p \<and> X m = x \<and> Y m = y \<longrightarrow>
            (\<exists>gs'. handleNetworkMessage m gs = Some gs' \<and> winner gs' = p \<and> gameOver gs'))"
proof (intro conjI impI)
  assume a: "playerID gs = p \<and> p \<noteq> 0 \<and> \<not> HasPrefix input ''/c '' \<and>
             parseMove input = Coords x y"
  then have "handleUserInput input gs = localMove x y p gs"
    using turn run rdy by (simp add: handleUserInput_move ready_def)
  then show "\<exists>gs'. handleUserInput input gs = Some gs' \<and> winner gs' = p \<and> gameOver gs'"
    using localMove_applied [OF rdy turn run cell] five by auto
next
  assume a: "playerID gs \<noteq> p \<and> Type m = MsgTypeMove \<and> Player m = p \<and> X m = x \<and> Y m = y"
  then have "\<exists>gs'. handleNetworkMessage m gs = Some gs' \<and>
               (if hasFiveInRow (setCell (board gs) x y p) p
                then winner gs' = p \<and> gameOver gs' \<and> currentPlayer gs' = currentPlayer gs
                else if checkDrawLogic (setCell (board gs) x y p)
                  then winner gs' = 3 \<and> gameOver gs' \<and> currentPlayer gs' = currentPlayer gs
                  else winner gs' = winner gs \<and> \<not> gameOver gs' \<and>
                       currentPlayer gs' = playerID gs)"
    using handleNetworkMessage_applied [of gs m] rdy turn run cell by auto
  then show "\<exists>gs'. handleNetworkMessage m gs = Some gs' \<and> winner gs' = p \<and> gameOver gs'"
    using five by auto
qed

theorem win_checked_before_draw_witness:
  "(\<exists>gs'. handleUserInput ''0,4'' (position lastCellOpen Player1 Player1) = Some gs' \<and>
          winner gs' = Player1 \<and> gameOver gs') \<and>
   (\<exists>gs'. handleNetworkMessage (moveMsg Player1 0 4) (position lastCellOpen Player1 Player2)
            = Some gs' \<and>
          winner gs' = Player1 \<and> gameOver gs')"
proof -
  have wfb: "wf_board lastCellOpen" and wfb': "wf_board (setCell lastCellOpen 0 4 Player1)"
    by code_simp+
  have wf: "ready (position lastCellOpen Player1 me)" for me
    using wfb by (simp add: ready_def position_def)
  have run: "\<not> gameOver (position lastCellOpen Player1 me)"
    and turn: "currentPlayer (position lastCellOpen Player1 me) = Player1" for me
    by (simp_all add: position_def)
  have rng: "inRange 0 4"
    by code_simp
  have "cellAt lastCellOpen 0 4 = Some Empty"
    by code_simp
  then have cell: "cellAt (board (position lastCellOpen Player1 me)) 0 4 = Some Empty" for me
    by (simp add: position_def)
  have "checkWinLogic (setCell lastCellOpen 0 4 Player1) Player1 = Some True"
    by code_simp
  then have "hasFiveInRow (setCell lastCellOpen 0 4 Player1) Player1"
    using checkWinLogic_wf [OF wfb'] by simp
  then have five:
    "hasFiveInRow (setCell (board (position lastCellOpen Player1 me)) 0 4 Player1) Player1" for me
    by (simp add: position_def)
  have "checkDrawLogic (setCell lastCellOpen 0 4 Player1)"
    by code_simp
  then have full: "checkDrawLogic (setCell (board (position lastCellOpen Player1 me)) 0 4 Player1)"
    for me
    by (simp add: position_def)
  have inp: "\<not> HasPrefix ''0,4'' ''/c ''" "parseMove ''0,4'' = Coords 0 4"
    by code_simp+
  have me: "playerID (position lastCellOpen Player1 Player1) = Player1"
           "playerID (position lastCellOpen Player1 Player2) \<noteq> Player1" "Player1 \<noteq> 0"
    by (simp_all add: position_def Player1_def Player2_def)
  have msg: "Type (moveMsg Player1 0 4) = MsgTypeMove" "Player (moveMsg Player1 0 4) = Player1"
            "X (moveMsg Player1 0 4) = 0" "Y (moveMsg Player1 0 4) = 4"
    by (simp_all add: moveMsg_def)
  show ?thesis
    using win_checked_before_draw
        [where gs = "position lastCellOpen Player1 Player1" and p = Player1 and x = 0 and y = 4
           and input = "''0,4''" and m = "moveMsg Player1 0 4", OF wf run turn rng cell five full]
      win_checked_before_draw
        [where gs = "position lastCellOpen Player1 Player2" and p = Player1 and x = 0 and y = 4
           and input = "''0,4''" and m = "moveMsg Player1 0 4", OF wf run turn rng cell five full]
      inp me msg
    by blast
qed

subsection \<open>The turn after an applied move\<close>

lemma sub64_in_range: "- (2 ^ 63) + 4 \<le> p \<Longrightarrow> p < 2 ^ 63 \<Longrightarrow> sub64 3 p = 3 - p"
proof -
  assume a: "- (2 ^ 63) + 4 \<le> p" "p < 2 ^ 63"
  have "0 \<le> 3 - p + 2 ^ 63" "3 - p + 2 ^ 63 < (2 ^ 64 :: int)"
    using a by simp_all
  then have "(3 - p + 2 ^ 63) mod 2 ^ 64 = 3 - p + 2 ^ 63"
    by (rule mod_pos_pos_trivial)
  then show ?thesis
    by (simp add: sub64_def)
qed

text \<open>
  Claim C5. When a handler applies a move (\<open>placePieceInternal\<close> returns \<open>true\<close>) and the
  game is not over afterwards, the turn is the other player's: \<open>handleUserInput\<close> leaves
  \<open>currentPlayer = 3 - myPlayerID\<close> (Go's 64-bit subtraction, which is the plain
  difference for every player number that can occur, and the other player for 1 and
  2), and \<open>handleNetworkMessage\<close> leaves \<open>currentPlayer = playerID\<close>, the local player,
  who is not the sender.
\<close>

theorem turn_passes_to_other_player:
  assumes rdy: "ready gs" and run: "\<not> gameOver gs" and turn: "currentPlayer gs = p"
      and ok: "placePieceInternal x y p gs = Some (True, gs1)"
  shows "(playerID gs = p \<and> p \<noteq> 0 \<and> \<not> HasPrefix input ''/c '' \<and>
          parseMove input = Coords x y \<longrightarrow>
            (\<exists>gs'. handleUserInput input gs = Some gs' \<and> board gs' = board gs1 \<and>
               (\<not> gameOver gs' \<longrightarrow>
                  currentPlayer gs' = sub64 3 p \<and>
                  (- (2 ^ 63) + 4 \<le> p \<and> p < 2 ^ 63 \<longrightarrow> currentPlayer gs' = 3 - p) \<and>
                  (p = Player1 \<longrightarrow> currentPlayer gs' = Player2) \<and>
                  (p = Player2 \<longrightarrow> currentPlayer gs' = Player1)))) \<and>
         (playerID gs \<noteq> p \<and> Type m = MsgTypeMove \<and> Player m = p \<and> X m = x \<and> Y m = y \<longrightarrow>
            (\<exists>gs'. handleNetworkMessage m gs = Some gs' \<and> board gs' = board gs1 \<and>
               (\<not> gameOver gs' \<longrightarrow>
                  currentPlayer gs' = playerID gs \<and> currentPlayer gs' \<noteq> p)))"
proof -
  have wf: "wf_board (board gs)"
    using rdy by (simp add: ready_def)
  from placePieceInternal_True [OF wf ok]
  have cell: "inRange x y" "cellAt (board gs) x y = Some Empty"
    and gs1: "board gs1 = setCell (board gs) x y p"
    by simp_all
  show ?thesis
  proof (intro conjI impI)
    assume a: "playerID gs = p \<and> p \<noteq> 0 \<and> \<not> HasPrefix input ''/c '' \<and>
               parseMove input = Coords x y"
    then have eq: "handleUserInput input gs = localMove x y p gs"
      using turn run rdy by (simp add: handleUserInput_move ready_def)
    from localMove_applied [OF rdy turn run cell] obtain gs' where
      r: "localMove x y p gs = Some gs'" "board gs' = setCell (board gs) x y p"
      and c: "\<not> gameOver gs' \<Longrightarrow> currentPlayer gs' = sub64 3 p"
      by (auto split: if_splits)
    have concl: "\<not> gameOver gs' \<longrightarrow>
            currentPlayer gs' = sub64 3 p \<and>
            (- (2 ^ 63) + 4 \<le> p \<and> p < 2 ^ 63 \<longrightarrow> currentPlayer gs' = 3 - p) \<and>
            (p = Player1 \<longrightarrow> currentPlayer gs' = Player2) \<and>
            (p = Player2 \<longrightarrow> currentPlayer gs' = Player1)"
      using c by (auto simp: sub64_in_range Player1_def Player2_def)
    from eq r gs1 have "handleUserInput input gs = Some gs' \<and> board gs' = board gs1"
      by simp
    with concl show "\<exists>gs'. handleUserInput input gs = Some gs' \<and> board gs' = board gs1 \<and>
               (\<not> gameOver gs' \<longrightarrow>
                  currentPlayer gs' = sub64 3 p \<and>
                  (- (2 ^ 63) + 4 \<le> p \<and> p < 2 ^ 63 \<longrightarrow> currentPlayer gs' = 3 - p) \<and>
                  (p = Player1 \<longrightarrow> currentPlayer gs' = Player2) \<and>
                  (p = Player2 \<longrightarrow> currentPlayer gs' = Player1))"
      by blast
  next
    assume a: "playerID gs \<noteq> p \<and> Type m = MsgTypeMove \<and> Player m = p \<and> X m = x \<and> Y m = y"
    from handleNetworkMessage_applied [of gs m] a rdy turn run cell obtain gs' where
      r: "handleNetworkMessage m gs = Some gs'" "board gs' = setCell (board gs) x y p"
      and c: "\<not> gameOver gs' \<Longrightarrow> currentPlayer gs' = playerID gs"
      by (auto split: if_splits)
    then show "\<exists>gs'. handleNetworkMessage m gs = Some gs' \<and> board gs' = board gs1 \<and>
               (\<not> gameOver gs' \<longrightarrow> currentPlayer gs' = playerID gs \<and> currentPlayer gs' \<noteq> p)"
      using a gs1 by auto
  qed
qed


theorem turn_passes_to_other_player_witness:
  "(\<exists>gs'. handleUserInput ''6,6'' (position fourEach Player1 Player1) = Some gs' \<and>
          \<not> gameOver gs' \<and> currentPlayer gs' = Player2 \<and>
          board gs' = setCell fourEach 6 6 Player1) \<and>
   (\<exists>gs'. handleNetworkMessage (moveMsg Player1 6 6) (position fourEach Player1 Player2)
            = Some gs' \<and>
          \<not> gameOver gs' \<and> currentPlayer gs' = Player2 \<and>
          board gs' = setCell fourEach 6 6 Player1)"
proof -
  have wfb: "wf_board fourEach"
    by code_simp
  have wf: "ready (position fourEach Player1 me)"
    and wf0: "wf_board (board (position fourEach Player1 me))" for me
    using wfb by (simp_all add: ready_def position_def)
  have run: "\<not> gameOver (position fourEach Player1 me)"
    and turn: "currentPlayer (position fourEach Player1 me) = Player1" for me
    by (simp_all add: position_def)
  have rng: "inRange 6 6"
    by code_simp
  have "cellAt fourEach 6 6 = Some Empty"
    by code_simp
  then have cell: "cellAt (board (position fourEach Player1 me)) 6 6 = Some Empty" for me
    by (simp add: position_def)
  have ok: "placePieceInternal 6 6 Player1 (position fourEach Player1 me)
            = Some (True, (position fourEach Player1 me)
                 \<lparr>board := setCell (board (position fourEach Player1 me)) 6 6 Player1\<rparr>)" for me
    by (rule placePieceInternal_valid [OF wf0 rng cell])
  have inp: "\<not> HasPrefix ''6,6'' ''/c ''" "parseMove ''6,6'' = Coords 6 6"
    by code_simp+
  have me: "playerID (position fourEach Player1 Player1) = Player1"
           "playerID (position fourEach Player1 Player2) \<noteq> Player1" "Player1 \<noteq> 0"
           "playerID (position fourEach Player1 Player2) = Player2"
    by (simp_all add: position_def Player1_def Player2_def)
  have msg: "Type (moveMsg Player1 6 6) = MsgTypeMove" "Player (moveMsg Player1 6 6) = Player1"
            "X (moveMsg Player1 6 6) = 6" "Y (moveMsg Player1 6 6) = 6"
    by (simp_all add: moveMsg_def)
  have on1: "map_option gameOver (handleUserInput ''6,6'' (position fourEach Player1 Player1))
             = Some False"
    by code_simp
  have on2: "map_option gameOver
               (handleNetworkMessage (moveMsg Player1 6 6) (position fourEach Player1 Player2))
             = Some False"
    by code_simp
  from turn_passes_to_other_player
        [where gs = "position fourEach Player1 Player1" and p = Player1 and x = 6 and y = 6
           and input = "''6,6''" and m = "moveMsg Player1 6 6", OF wf run turn ok]
      inp me
  obtain gs' where u:
    "handleUserInput ''6,6'' (position fourEach Player1 Player1) = Some gs'"
    "board gs' = setCell fourEach 6 6 Player1"
    "\<not> gameOver gs' \<longrightarrow> currentPlayer gs' = Player2"
    by (auto simp: position_def)
  from turn_passes_to_other_player
        [where gs = "position fourEach Player1 Player2" and p = Player1 and x = 6 and y = 6
           and input = "''6,6''" and m = "moveMsg Player1 6 6", OF wf run turn ok]
      msg me
  obtain gs'' where n:
    "handleNetworkMessage (moveMsg Player1 6 6) (position fourEach Player1 Player2) = Some gs''"
    "board gs'' = setCell fourEach 6 6 Player1"
    "\<not> gameOver gs'' \<longrightarrow> currentPlayer gs'' = Player2"
    by (auto simp: position_def)
  from on1 u have "\<not> gameOver gs'" by simp
  moreover from on2 n have "\<not> gameOver gs''" by simp
  ultimately show ?thesis
    using u n by blast
qed

subsection \<open>An event fills at most one cell\<close>




lemma handleNetworkMessage_other:
  assumes "\<not> mu gs" and "\<not> gameOver gs" and "Type m \<noteq> MsgTypeMove"
  shows "\<exists>gs'. handleNetworkMessage m gs = Some gs' \<and> board gs' = board gs \<and> \<not> mu gs' \<and>
           (gameOver gs' = gameOver gs \<and> winner gs' = winner gs \<or>
            gameOver gs' = (Winner m \<noteq> 0) \<and> winner gs' = Winner m)"
  using assms
  by (auto simp: handleNetworkMessage_def dispatch_def Let_def SetNeedsRedraw_def closeQuit_def
      AddChatMessage_def)

lemma handleNetworkMessage_fills:
  assumes rdy: "ready gs" and run: "\<not> gameOver gs"
  shows "\<exists>gs'. handleNetworkMessage m gs = Some gs' \<and> ready gs' \<and>
           fills (board gs) (board gs')"
proof (cases "Type m = MsgTypeMove")
  case False
  then show ?thesis
    using handleNetworkMessage_other [of gs m] rdy run by (auto simp: fills_def ready_def)
next
  case move: True
  show ?thesis
  proof (cases "Player m \<noteq> playerID gs \<and> currentPlayer gs = Player m \<and>
                inRange (X m) (Y m) \<and> cellAt (board gs) (X m) (Y m) = Some Empty")
    case True
    then obtain gs' where r: "handleNetworkMessage m gs = Some gs'"
        "board gs' = setCell (board gs) (X m) (Y m) (Player m)" "\<not> mu gs'"
      using handleNetworkMessage_applied [OF rdy _ run _ move] by blast
    then have "ready gs'"
      using rdy by (simp add: ready_def wf_setCell)
    moreover have "fills (board gs) (board gs')"
      using True r(2) by (auto simp: fills_def)
    ultimately show ?thesis
      using r(1) by blast
  next
    case False
    then show ?thesis
      using handleNetworkMessage_not_applied [OF rdy run move False]
      by (auto simp: sameGame_def fills_def)
  qed
qed

lemma handleUserInput_fills:
  assumes rdy: "ready gs"
  shows "\<exists>gs'. handleUserInput input gs = Some gs' \<and> ready gs' \<and>
           fills (board gs) (board gs') \<and> playerID gs' = playerID gs \<and>
           (playerID gs = 0 \<longrightarrow> sameGame gs gs')"
proof (cases "playerID gs \<noteq> 0 \<and> \<not> gameOver gs \<and> currentPlayer gs = playerID gs \<and>
              \<not> HasPrefix input ''/c ''")
  case True
  have free: "\<not> mu gs"
    using rdy by (simp add: ready_def)
  show ?thesis
  proof (cases "parseMove input")
    case (Coords x y)
    then have eq: "handleUserInput input gs = localMove x y (playerID gs) gs"
      using True free by (simp add: handleUserInput_move)
    show ?thesis
    proof (cases "inRange x y \<and> cellAt (board gs) x y = Some Empty")
      case valid: True
      then obtain gs' where r: "localMove x y (playerID gs) gs = Some gs'"
          "board gs' = setCell (board gs) x y (playerID gs)" "\<not> mu gs'"
          "playerID gs' = playerID gs"
        using localMove_applied [OF rdy, of "playerID gs" x y] True by auto
      then have "ready gs'"
        using rdy by (simp add: ready_def wf_setCell)
      moreover have "fills (board gs) (board gs')"
        using valid r(2) by (auto simp: fills_def)
      ultimately show ?thesis
        using r(1,4) eq True by auto
    next
      case False
      then show ?thesis
        using localMove_not_applied [OF rdy, of "playerID gs" x y] eq rdy True
        by (auto simp: fills_def SetNeedsRedraw_def ready_def)
    qed
  next
    case WrongParts
    then show ?thesis
      using True rdy
      by (simp add: handleUserInput_def Let_def SetNeedsRedraw_def fills_def ready_def)
  next
    case NotNumbers
    then show ?thesis
      using True rdy
      by (simp add: handleUserInput_def Let_def SetNeedsRedraw_def fills_def ready_def)
  qed
next
  case False
  then show ?thesis
    using rdy
    by (auto simp: handleUserInput_def Let_def SetNeedsRedraw_def fills_def SendMessage_def
        AddChatMessage_def ready_def sameGame_def)
qed


text \<open>
  Every input line is handled, and every message that arrives while the game is not
  over; a message that arrives after the end is not.
\<close>

lemma step_returns:
  assumes "ready gs" and "\<not> gameOver gs \<or> (\<exists>input. e = Input input)"
  shows "\<exists>gs'. step e gs = Some gs' \<and> ready gs' \<and> fills (board gs) (board gs')"
proof (cases e)
  case (Input input)
  then show ?thesis
    using handleUserInput_fills [OF assms(1), of input] assms(1)
    by (auto simp: SetNeedsRedraw_def fills_def ready_def)
next
  case (Net m)
  then show ?thesis
    using handleNetworkMessage_fills [OF assms(1), of m] assms(2) by auto
qed

lemma step_None:
  assumes "ready gs"
  shows "step e gs = None \<longleftrightarrow> gameOver gs \<and> (\<exists>m. e = Net m)"
proof (cases "\<not> gameOver gs \<or> (\<exists>input. e = Input input)")
  case True
  then show ?thesis
    using step_returns [OF assms True] by (cases e) auto
next
  case False
  then obtain m where "e = Net m" "gameOver gs"
    by (cases e) auto
  then show ?thesis
    using assms by (simp add: handleNetworkMessage_after_end ready_def)
qed

lemma step_ready:
  assumes "ready gs" and "step e gs = Some gs'"
  shows "ready gs'" and "fills (board gs) (board gs')"
proof -
  have "\<not> gameOver gs \<or> (\<exists>input. e = Input input)"
    using step_None [OF assms(1), of e] assms(2) by (cases e) auto
  from step_returns [OF assms(1) this] assms(2)
  show "ready gs'" and "fills (board gs) (board gs')"
    by auto
qed


lemma run_ready: "ready gs \<Longrightarrow> run es gs = Some gs' \<Longrightarrow> ready gs'"
proof (induction es arbitrary: gs)
  case Nil
  then show ?case by simp
next
  case (Cons e es)
  from Cons.prems(2) obtain gs1 where s: "step e gs = Some gs1" "run es gs1 = Some gs'"
    by (auto split: option.splits)
  then show ?case
    using step_ready(1) [OF Cons.prems(1) s(1)] Cons.IH [of gs1] by simp
qed

subsection \<open>The outcome fields stay consistent\<close>

lemma handleUserInput_outcome:
  assumes rdy: "ready gs" and r: "handleUserInput input gs = Some gs'"
  shows "gameOver gs' = gameOver gs \<and> winner gs' = winner gs \<or>
         gameOver gs' \<and> winner gs' \<noteq> 0"
proof (cases "playerID gs \<noteq> 0 \<and> \<not> gameOver gs \<and> currentPlayer gs = playerID gs \<and>
              \<not> HasPrefix input ''/c ''")
  case True
  have free: "\<not> mu gs"
    using rdy by (simp add: ready_def)
  show ?thesis
  proof (cases "parseMove input")
    case (Coords x y)
    then have eq: "localMove x y (playerID gs) gs = Some gs'"
      using True free r by (simp add: handleUserInput_move)
    show ?thesis
    proof (cases "inRange x y \<and> cellAt (board gs) x y = Some Empty")
      case valid: True
      then have "gameOver gs' \<and> (winner gs' = playerID gs \<or> winner gs' = 3) \<or>
                 \<not> gameOver gs' \<and> winner gs' = winner gs"
        using localMove_applied [OF rdy, of "playerID gs" x y] True eq
        by (auto split: if_splits)
      then show ?thesis
        using True by auto
    next
      case False
      then show ?thesis
        using localMove_not_applied [OF rdy, of "playerID gs" x y] eq
        by (auto simp: SetNeedsRedraw_def)
    qed
  next
    case WrongParts
    then show ?thesis
      using True free r
      by (auto simp: handleUserInput_def Let_def SetNeedsRedraw_def)
  next
    case NotNumbers
    then show ?thesis
      using True free r
      by (auto simp: handleUserInput_def Let_def SetNeedsRedraw_def)
  qed
next
  case False
  then show ?thesis
    using rdy r
    by (auto simp: handleUserInput_def Let_def SetNeedsRedraw_def SendMessage_def
        AddChatMessage_def ready_def split: if_splits)
qed

lemma handleNetworkMessage_outcome:
  assumes rdy: "ready gs" and r: "handleNetworkMessage m gs = Some gs'"
  shows "gameOver gs' = gameOver gs \<and> winner gs' = winner gs \<or>
         (gameOver gs' \<longleftrightarrow> winner gs' \<noteq> 0) \<or>
         gameOver gs' \<and> Type m = MsgTypeMove \<and> Player m = 0"
proof -
  have free: "\<not> mu gs"
    using rdy by (simp add: ready_def)
  have run: "\<not> gameOver gs"
    using handleNetworkMessage_after_end [OF free, of m] r by auto
  show ?thesis
  proof (cases "Type m = MsgTypeMove")
    case False
    then show ?thesis
      using handleNetworkMessage_other [OF free run False] r by auto
  next
    case move: True
    show ?thesis
    proof (cases "Player m \<noteq> playerID gs \<and> currentPlayer gs = Player m \<and>
                  inRange (X m) (Y m) \<and> cellAt (board gs) (X m) (Y m) = Some Empty")
      case True
      then have "gameOver gs' \<and> (winner gs' = Player m \<or> winner gs' = 3) \<or>
                 \<not> gameOver gs' \<and> winner gs' = winner gs"
        using handleNetworkMessage_applied [OF rdy _ run _ move] r by (auto split: if_splits)
      then show ?thesis
        using move run by auto
    next
      case False
      then show ?thesis
        using handleNetworkMessage_not_applied [OF rdy run move False] r
        by (auto simp: sameGame_def)
    qed
  qed
qed

text \<open>
  What one event does to the outcome: it leaves the two fields as they were, or leaves
  them in agreement, or it is a Move message without a player that ends the game.
\<close>

lemma step_outcome:
  assumes "ready gs" and "step e gs = Some gs'"
  shows "gameOver gs' = gameOver gs \<and> winner gs' = winner gs \<or>
         (gameOver gs' \<longleftrightarrow> winner gs' \<noteq> 0) \<or>
         gameOver gs' \<and> \<not> namedMove e"
proof (cases e)
  case (Input input)
  then show ?thesis
    using handleUserInput_outcome [OF assms(1), of input gs'] assms(2)
    by (auto simp: SetNeedsRedraw_def split: if_splits)
next
  case (Net m)
  then show ?thesis
    using handleNetworkMessage_outcome [OF assms(1), of m gs'] assms(2) by auto
qed

lemma run_winner_ends:
  "ready gs \<Longrightarrow> winner gs \<noteq> 0 \<longrightarrow> gameOver gs \<Longrightarrow> run es gs = Some gs' \<Longrightarrow>
   winner gs' \<noteq> 0 \<longrightarrow> gameOver gs'"
proof (induction es arbitrary: gs)
  case Nil
  then show ?case by simp
next
  case (Cons e es)
  from Cons.prems(3) obtain gs1 where s: "step e gs = Some gs1" "run es gs1 = Some gs'"
    by (auto split: option.splits)
  have "ready gs1"
    using step_ready(1) [OF Cons.prems(1) s(1)] .
  moreover have "winner gs1 \<noteq> 0 \<longrightarrow> gameOver gs1"
    using step_outcome [OF Cons.prems(1) s(1)] Cons.prems(2) by auto
  ultimately show ?case
    using s(2) by (rule Cons.IH)
qed

lemma run_keeps_consistent:
  "ready gs \<Longrightarrow> consistent gs \<Longrightarrow> \<forall>e\<in>set es. namedMove e \<Longrightarrow> run es gs = Some gs' \<Longrightarrow>
   consistent gs'"
proof (induction es arbitrary: gs)
  case Nil
  then show ?case by simp
next
  case (Cons e es)
  from Cons.prems(4) obtain gs1 where s: "step e gs = Some gs1" "run es gs1 = Some gs'"
    by (auto split: option.splits)
  have named: "namedMove e" "\<forall>e\<in>set es. namedMove e"
    using Cons.prems(3) by simp_all
  have "ready gs1"
    using step_ready(1) [OF Cons.prems(1) s(1)] .
  moreover have "consistent gs1"
    using step_outcome [OF Cons.prems(1) s(1)] Cons.prems(2) named(1)
    by (auto simp: consistent_def)
  ultimately show ?case
    using named(2) s(2) by (rule Cons.IH)
qed

lemma start_invariant:
  "ready initialState" "consistent initialState"
  "ready (serverStart initialState)" "consistent (serverStart initialState)"
  by (simp_all add: initialState_def serverStart_def SetNeedsRedraw_def SendMessage_def
      consistent_def ready_def wf_NewBoard)

text \<open>
  Claim C6 says that in every state the handlers reach from the initial state,
  \<open>gameOver\<close> holds exactly when \<open>winner\<close> is not zero. As stated it fails: a State
  message with \<open>turn = 0\<close> and \<open>winner = 0\<close> sets \<open>currentPlayer\<close> to zero, and a Move
  message with \<open>player = 0\<close> is then accepted, finds five empty cells in a row and ends
  the game with \<open>winner = 0\<close>.
\<close>

theorem game_over_without_winner:
  "map_option gameOver (run strayMessages (serverStart initialState)) = Some True \<and>
   map_option winner (run strayMessages (serverStart initialState)) = Some 0"
  by code_simp

text \<open>
  Claim C6, amended. In every state that the handlers reach from the client's or the
  server's initial state, through any input lines and inbound messages, \<open>gameOver\<close> holds
  whenever \<open>winner\<close> is not zero. When every Move message among the events has a nonzero
  \<open>player\<close>, the converse holds as well: \<open>gameOver\<close> holds exactly when \<open>winner\<close> is not
  zero. From a state so reached every input line is handled, and so is every message
  while the game is not over.
\<close>

theorem winner_and_gameOver_in_reachable_states:
  assumes "gs0 = initialState \<or> gs0 = serverStart initialState"
      and "run es gs0 = Some gs"
  shows "(winner gs \<noteq> 0 \<longrightarrow> gameOver gs) \<and>
         ((\<forall>e\<in>set es. namedMove e) \<longrightarrow> (gameOver gs \<longleftrightarrow> winner gs \<noteq> 0)) \<and>
         (\<not> gameOver gs \<or> (\<exists>input. e = Input input) \<longrightarrow> (\<exists>gs'. step e gs = Some gs'))"
proof -
  have start: "ready gs0" "consistent gs0"
    using assms(1) start_invariant by auto
  have rdy: "ready gs"
    using start(1) assms(2) by (rule run_ready)
  have "winner gs0 \<noteq> 0 \<longrightarrow> gameOver gs0"
    using start(2) by (simp add: consistent_def)
  with start(1) have half: "winner gs \<noteq> 0 \<longrightarrow> gameOver gs"
    using assms(2) by (rule run_winner_ends)
  have full: "gameOver gs \<longleftrightarrow> winner gs \<noteq> 0" if "\<forall>e\<in>set es. namedMove e"
  proof -
    from start that assms(2) have "consistent gs"
      by (rule run_keeps_consistent)
    then show ?thesis
      by (simp add: consistent_def)
  qed
  have ret: "\<exists>gs'. step e gs = Some gs'"
    if "\<not> gameOver gs \<or> (\<exists>input. e = Input input)"
    using step_returns [OF rdy that] by blast
  show ?thesis
    using half full ret by blast
qed

theorem winner_and_gameOver_in_reachable_states_witness:
  "(\<exists>gs. run scenario (serverStart initialState) = Some gs \<and> gameOver gs \<and>
         winner gs = Player1) \<and>
   (\<exists>gs gs'. run (take 8 scenario) (serverStart initialState) = Some gs \<and> \<not> gameOver gs \<and>
         winner gs = 0 \<and> step (Input ''7,4'') gs = Some gs')"
proof -
  have start: "serverStart initialState = initialState \<or>
               serverStart initialState = serverStart initialState"
    by simp
  have named: "\<forall>e\<in>set scenario. namedMove e"
    by (simp add: scenario_def moveMsg_def Player2_def)
  then have named8: "\<forall>e\<in>set (take 8 scenario). namedMove e"
    by (meson in_set_takeD)
  obtain gs where r: "run scenario (serverStart initialState) = Some gs"
    and w: "winner gs = Player1"
  proof -
    have "map_option winner (run scenario (serverStart initialState)) = Some Player1"
      by code_simp
    then show ?thesis
      using that by auto
  qed
  obtain gs8 where r8: "run (take 8 scenario) (serverStart initialState) = Some gs8"
    and w8: "winner gs8 = 0"
  proof -
    have "map_option winner (run (take 8 scenario) (serverStart initialState)) = Some 0"
      by code_simp
    then show ?thesis
      using that by auto
  qed
  from winner_and_gameOver_in_reachable_states [OF start r, of "Input ''7,4''"] w
  have "gameOver gs"
    by (simp add: Player1_def)
  moreover
  from winner_and_gameOver_in_reachable_states [OF start r8, of "Input ''7,4''"] named8 w8
  have "\<not> gameOver gs8" "\<exists>gs'. step (Input ''7,4'') gs8 = Some gs'"
    by auto
  ultimately show ?thesis
    using r w r8 w8 by blast
qed

subsection \<open>A move delivered twice\<close>








subsection \<open>Chat lines\<close>

text \<open>
  Claim C9 says that every input line \<open>/c text\<close> is appended to the chat log and queued
  for sending. As stated it fails: \<open>handleUserInput\<close> returns before it looks at the line
  when the player is not assigned, the game is over, or it is not the local player's
  turn. Here the local player is Player 2 and the turn is Player 1's.
\<close>

theorem chat_ignored_out_of_turn:
  "map_option chatHistory (handleUserInput ''/c hello'' (position fourEach Player1 Player2))
     = Some [] \<and>
   map_option sent (handleUserInput ''/c hello'' (position fourEach Player1 Player2)) = Some []"
  by code_simp

lemma AddChatMessage_history:
  "chatHistory (AddChatMessage sender message gs)
   = drop (length (chatHistory gs) + 1 - 20) (chatHistory gs @ [''['' @ sender @ '']: '' @ message])"
  by (simp add: AddChatMessage_def Let_def)

lemma last_capped: "last (drop (length h + 1 - 20) (h @ [e])) = e"
proof -
  have "length h + 1 - 20 < length (h @ [e])"
    by simp
  then have "last (drop (length h + 1 - 20) (h @ [e])) = last (h @ [e])"
    by (rule last_drop)
  then show ?thesis
    by simp
qed

lemma sent_simps:
  "sent (SetNeedsRedraw gs) = sent gs"
  "sent (AddChatMessage sender message gs) = sent gs"
  "sent (SendMessage m gs) = sent gs @ [m]"
  by (simp_all add: SetNeedsRedraw_def AddChatMessage_def SendMessage_def Let_def)

lemma chatHistory_simps:
  "chatHistory (SetNeedsRedraw gs) = chatHistory gs"
  "chatHistory (SendMessage m gs) = chatHistory gs"
  by (simp_all add: SetNeedsRedraw_def SendMessage_def)

text \<open>
  Claim C9, amended. An input line that starts with \<open>/c \<close> and has text after it leaves
  the game fields alone. Entered while the local player is assigned, the game is not
  over and the turn is the local player's, it is appended to the chat log as
  \<open>[You (Player n)]: text\<close> (the log keeps its 20 latest entries) and a Chat message
  with the text is handed to \<open>SendMessage\<close>; in any other state the line is ignored,
  the chat log and the messages sent staying as they were.
\<close>

theorem chat_line_on_own_turn:
  assumes "\<not> mu gs" and "HasPrefix input ''/c ''" and "TrimPrefix input ''/c '' \<noteq> []"
  shows "\<exists>gs'. handleUserInput input gs = Some gs' \<and> sameGame gs gs' \<and>
           (playerID gs \<noteq> 0 \<and> \<not> gameOver gs \<and> currentPlayer gs = playerID gs \<longrightarrow>
              chatHistory gs'
                = drop (length (chatHistory gs) + 1 - 20)
                    (chatHistory gs @
                     [''[You (Player '' @ showInt (playerID gs) @ '')]: '' @
                      TrimPrefix input ''/c '']) \<and>
              last (chatHistory gs')
                = ''[You (Player '' @ showInt (playerID gs) @ '')]: '' @ TrimPrefix input ''/c '' \<and>
              sent gs'
                = sent gs @ [zeroMessage\<lparr>Type := MsgTypeChat, Player := playerID gs,
                                Content := TrimPrefix input ''/c ''\<rparr>]) \<and>
           (\<not> (playerID gs \<noteq> 0 \<and> \<not> gameOver gs \<and> currentPlayer gs = playerID gs) \<longrightarrow>
              chatHistory gs' = chatHistory gs \<and> sent gs' = sent gs)"
proof (cases "playerID gs \<noteq> 0 \<and> \<not> gameOver gs \<and> currentPlayer gs = playerID gs")
  case True
  define gs' where
    "gs' = SetNeedsRedraw
             (AddChatMessage (''You (Player '' @ showInt (playerID gs) @ '')'')
                (TrimPrefix input ''/c '')
                (SendMessage (zeroMessage\<lparr>Type := MsgTypeChat, Player := playerID gs,
                                Content := TrimPrefix input ''/c ''\<rparr>) gs))"
  have r: "handleUserInput input gs = Some gs'"
    using assms True by (simp add: handleUserInput_def Let_def gs'_def)
  have g: "sameGame gs gs'"
    by (simp add: gs'_def)
  have h: "chatHistory gs'
           = drop (length (chatHistory gs) + 1 - 20)
               (chatHistory gs @
                [''[You (Player '' @ showInt (playerID gs) @ '')]: '' @ TrimPrefix input ''/c ''])"
    by (simp add: gs'_def chatHistory_simps AddChatMessage_history)
  have l: "last (chatHistory gs')
           = ''[You (Player '' @ showInt (playerID gs) @ '')]: '' @ TrimPrefix input ''/c ''"
    unfolding h by (rule last_capped)
  have s: "sent gs' = sent gs @ [zeroMessage\<lparr>Type := MsgTypeChat, Player := playerID gs,
                                   Content := TrimPrefix input ''/c ''\<rparr>]"
    by (simp add: gs'_def sent_simps)
  show ?thesis
    using True r g h l s by blast
next
  case False
  then have "handleUserInput input gs = Some (SetNeedsRedraw gs)"
    using assms(1) by (auto simp: handleUserInput_def Let_def)
  then show ?thesis
    using False by (simp add: chatHistory_simps sent_simps)
qed

theorem chat_line_on_own_turn_witness:
  "(\<exists>gs'. handleUserInput ''/c hello'' (position fourEach Player1 Player1) = Some gs' \<and>
          sameGame (position fourEach Player1 Player1) gs' \<and>
          chatHistory gs' = [''[You (Player 1)]: hello''] \<and>
          sent gs' = [zeroMessage\<lparr>Type := MsgTypeChat, Player := 1, Content := ''hello''\<rparr>]) \<and>
   (\<exists>gs'. handleUserInput ''/c hello'' (position fourEach Player1 Player2) = Some gs' \<and>
          sameGame (position fourEach Player1 Player2) gs' \<and>
          chatHistory gs' = [] \<and> sent gs' = [])"
proof -
  have pre: "HasPrefix ''/c hello'' ''/c ''" and body: "TrimPrefix ''/c hello'' ''/c '' \<noteq> []"
    by code_simp+
  have free: "\<not> mu (position fourEach Player1 me)" for me
    by (simp add: position_def)
  have t: "TrimPrefix ''/c hello'' ''/c '' = ''hello''" and n: "showInt 1 = ''1''"
    by code_simp+
  have "\<exists>gs'. handleUserInput ''/c hello'' (position fourEach Player1 Player1) = Some gs' \<and>
          sameGame (position fourEach Player1 Player1) gs' \<and>
          chatHistory gs' = [''[You (Player 1)]: hello''] \<and>
          sent gs' = [zeroMessage\<lparr>Type := MsgTypeChat, Player := 1, Content := ''hello''\<rparr>]"
    using chat_line_on_own_turn [OF free pre body, of Player1]
    by (simp add: position_def Player1_def t n) blast
  moreover
  have "\<exists>gs'. handleUserInput ''/c hello'' (position fourEach Player1 Player2) = Some gs' \<and>
          sameGame (position fourEach Player1 Player2) gs' \<and>
          chatHistory gs' = [] \<and> sent gs' = []"
    using chat_line_on_own_turn [OF free pre body, of Player2]
    by (simp add: position_def Player1_def Player2_def)
  ultimately show ?thesis
    by (rule conjI)
qed

end
